theory Spec2Isabelle
  imports Main "HOL-Library.Word" "HOL-Library.Sublist"
begin

section \<open>Machine types of the Go sources\<close>

text \<open>
  Go's \<open>int64\<close> is a 64-bit word read in two's complement; \<open>int\<close> is taken at its
  64-bit width. Comparisons of the source are signed, so they are written on \<open>sint\<close>.
  \<open>os.FileMode\<close> is a \<open>uint32\<close>. A \<open>time.Time\<close> is kept as its Unix second count, the only
  way the sources look at it (\<open>t.Unix() > 0\<close>). Strings are byte lists.
\<close>

type_synonym int64 = "64 word"
type_synonym go_int = "64 word"
type_synonym FileMode = "32 word"
type_synonym time = int
type_synonym bytes = "8 word list"

section \<open>Library functions used by the sources\<close>

text \<open>
  The functions of Go's \<open>strings\<close> and \<open>path/filepath\<close> packages that the sources call
  are not part of the repository. They are written here after their documented behaviour
  on a Unix system (separator \<open>/\<close>, no volume names).
\<close>

definition strings_Contains :: "string \<Rightarrow> string \<Rightarrow> bool" where
  "strings_Contains s substr = sublist substr s"

definition strings_HasPrefix :: "string \<Rightarrow> string \<Rightarrow> bool" where
  "strings_HasPrefix s pre = prefix pre s"

text \<open>
  \<open>strings.FieldsFunc(s, f)\<close>: the maximal runs of characters that do not satisfy \<open>f\<close>,
  in order; empty runs are not fields. The accumulator holds the current run reversed.
\<close>

fun fields_acc :: "(char \<Rightarrow> bool) \<Rightarrow> string \<Rightarrow> string \<Rightarrow> string list" where
  "fields_acc f acc [] = (if acc = [] then [] else [rev acc])"
| "fields_acc f acc (c # cs) =
     (if f c then (if acc = [] then fields_acc f [] cs else rev acc # fields_acc f [] cs)
      else fields_acc f (c # acc) cs)"

definition strings_FieldsFunc :: "string \<Rightarrow> (char \<Rightarrow> bool) \<Rightarrow> string list" where
  "strings_FieldsFunc s f = fields_acc f [] s"

text \<open>Splitting a path at every \<open>/\<close>; empty components are kept.\<close>

fun split_acc :: "string \<Rightarrow> string \<Rightarrow> string list" where
  "split_acc acc [] = [rev acc]"
| "split_acc acc (c # cs) =
     (if c = CHR ''/'' then rev acc # split_acc [] cs else split_acc (c # acc) cs)"

definition split_slash :: "string \<Rightarrow> string list" where
  "split_slash p = split_acc [] p"

fun join_slash :: "string list \<Rightarrow> string" where
  "join_slash [] = []"
| "join_slash [c] = c"
| "join_slash (c # d # cs) = c @ ''/'' @ join_slash (d # cs)"

definition rooted :: "string \<Rightarrow> bool" where
  "rooted p = (case p of [] \<Rightarrow> False | c # _ \<Rightarrow> c = CHR ''/'')"

text \<open>
  The lexical processing of \<open>filepath.Clean\<close>, on components: empty components and \<open>.\<close>
  are dropped; \<open>..\<close> removes the component before it, is dropped at the root of a rooted
  path, and is kept at the start of a relative one. The accumulator is the output so far,
  reversed.
\<close>

fun clean_comps :: "bool \<Rightarrow> string list \<Rightarrow> string list \<Rightarrow> string list" where
  "clean_comps r acc [] = rev acc"
| "clean_comps r acc (c # cs) =
     (if c = [] \<or> c = ''.'' then clean_comps r acc cs
      else if c = ''..'' then
        (case acc of
           [] \<Rightarrow> if r then clean_comps r [] cs else clean_comps r [''..''] cs
         | a # acc' \<Rightarrow>
             if a = ''..'' then clean_comps r (c # acc) cs else clean_comps r acc' cs)
      else clean_comps r (c # acc) cs)"

definition path_comps :: "string \<Rightarrow> string list" where
  "path_comps p = clean_comps (rooted p) [] (split_slash p)"

text \<open>A cleaned path, written out from its components.\<close>

definition render_path :: "bool \<Rightarrow> string list \<Rightarrow> string" where
  "render_path r cs =
     (if r then ''/'' @ join_slash cs else if cs = [] then ''.'' else join_slash cs)"

definition filepath_Clean :: "string \<Rightarrow> string" where
  "filepath_Clean p = (if p = [] then ''.'' else render_path (rooted p) (path_comps p))"

text \<open>\<open>filepath.Join(a, b)\<close>: empty elements are ignored, the rest is joined and cleaned.\<close>

definition filepath_Join :: "string \<Rightarrow> string \<Rightarrow> string" where
  "filepath_Join a b =
     (if a \<noteq> [] then filepath_Clean (a @ ''/'' @ b)
      else if b \<noteq> [] then filepath_Clean b
      else [])"

text \<open>\<open>filepath.Dir(p)\<close>: everything up to the last separator, cleaned.\<close>

definition upto_last_slash :: "string \<Rightarrow> string" where
  "upto_last_slash p = rev (dropWhile (\<lambda>c. c \<noteq> CHR ''/'') (rev p))"

definition filepath_Dir :: "string \<Rightarrow> string" where
  "filepath_Dir p = filepath_Clean (upto_last_slash p)"

text \<open>
  \<open>filepath.Base(p)\<close>: the last element, after trailing separators are removed;
  \<open>.\<close> for the empty path and \<open>/\<close> for a path of separators only.
\<close>

definition filepath_Base :: "string \<Rightarrow> string" where
  "filepath_Base p =
     (if p = [] then ''.''
      else
        let q = rev (dropWhile (\<lambda>c. c = CHR ''/'') (rev p));
            b = rev (takeWhile (\<lambda>c. c \<noteq> CHR ''/'') (rev q))
        in if b = [] then ''/'' else b)"


section \<open>internal/helpers\<close>

definition isSlash :: "char \<Rightarrow> bool" where
  "isSlash r = (r = CHR ''/'' \<or> r = CHR 0x5C)"

definition ContainsDotDot :: "string \<Rightarrow> bool" where
  "ContainsDotDot v =
     (if \<not> strings_Contains v ''..'' then False
      else list_ex (\<lambda>ent. ent = ''..'') (strings_FieldsFunc v isSlash))"

text \<open>
  \<open>ExpandTilde\<close> of the helpers package. \<open>home\<close> is the result of \<open>os.UserHomeDir()\<close>,
  \<open>None\<close> when it returns an error.
\<close>

datatype error =
    ErrTooManyFiles go_int go_int
  | ErrEmpty string
  | ErrReader string
  | ErrSizeLimit int64 int64
  | ErrExpectedFile string string
  | ErrMkdir string
  | ErrMoreThanOneFile string
  | ErrOpenFile string
  | ErrCopy string
  | ErrChmod string
  | ErrChtimes string
  | ErrDirChmod string
  | ErrDirChtimes string
  | ErrHomeDir
  | ErrExpandSource
  | ErrExpandDestination
  | ErrBzip2SingleFile
  | ErrOpenBzip2 string
  | ErrBzip2Escape
  | ErrCreateFile string
  | ErrDecompressedSize int64
  | ErrWrite
  | ErrDecompression string
  | ErrAbsDestination
  | ErrAbsFilePath
  | ErrSymlinks
  | ErrIllegalPath string

definition ExpandTilde :: "string option \<Rightarrow> string \<Rightarrow> error + string" where
  "ExpandTilde home path =
     (if \<not> strings_HasPrefix path ''~'' then Inr path
      else case home of
             None \<Rightarrow> Inl ErrHomeDir
           | Some homeDir \<Rightarrow> Inr (filepath_Join homeDir (drop 1 path)))"

subsection \<open>IsSafePath\<close>




subsection \<open>The file system, as the sequence of calls made on it\<close>

text \<open>
  Every call the sources make on the file system is recorded, in order, in a log. Whether
  a call returns an error is decided by the operating system: \<open>call_fails\<close> takes the
  calls made so far and the call at hand. \<open>stat_not_exist\<close> is
  \<open>os.IsNotExist\<close> of the error of \<open>os.Stat\<close>. A failing call is logged too, as it may
  have had an effect.
\<close>

datatype open_flags = O_RDWR_CREATE_TRUNC | O_WRONLY_CREATE_TRUNC

datatype reader = EntryData bytes | LimitReader reader int64

fun read_all :: "reader \<Rightarrow> bytes" where
  "read_all (EntryData bs) = bs"
| "read_all (LimitReader r n) = (if sint n \<le> 0 then [] else take (nat (sint n)) (read_all r))"

datatype fs_call =
    MkdirAll string FileMode
  | Open string
  | OpenFile string open_flags FileMode
  | IoCopy string reader
  | Write string bytes
  | Chmod string FileMode
  | Chtimes string time time

record os_model =
  call_fails :: "fs_call list \<Rightarrow> fs_call \<Rightarrow> bool"
  stat_not_exist :: "fs_call list \<Rightarrow> string \<Rightarrow> bool"

subsection \<open>CopyReader\<close>

definition CopyReader ::
  "os_model \<Rightarrow> fs_call list \<Rightarrow> reader \<Rightarrow> string \<Rightarrow> FileMode \<Rightarrow> int64
     \<Rightarrow> error option \<times> fs_call list" where
  "CopyReader os log src dst mode fileSizeLimit =
     (let c1 = OpenFile dst O_RDWR_CREATE_TRUNC mode; log1 = log @ [c1] in
      if call_fails os log c1 then (Some (ErrOpenFile dst), log1)
      else
        let src' = (if 0 < sint fileSizeLimit then LimitReader src fileSizeLimit else src);
            c2 = IoCopy dst src'; log2 = log1 @ [c2] in
        if call_fails os log1 c2 then (Some (ErrCopy dst), log2)
        else
          let c3 = Chmod dst mode in
          (if call_fails os log2 c3 then Some (ErrChmod dst) else None, log2 @ [c3]))"

section \<open>expand/tar: untar\<close>

text \<open>
  A tar header as \<open>tarReader.Next()\<close> returns it. \<open>FileInfo_IsDir\<close> and \<open>FileInfo_Mode\<close>
  are \<open>header.FileInfo().IsDir()\<close> and \<open>header.FileInfo().Mode()\<close>, computed by the tar
  library from the header; \<open>header.FileInfo().Size()\<close> is the field \<open>Size\<close>. An entry
  is a header with the bytes the reader delivers for it.
\<close>

record Header =
  Name :: string
  Typeflag :: char
  Size :: int64
  AccessTime :: time
  ModTime :: time
  FileInfo_IsDir :: bool
  FileInfo_Mode :: FileMode

definition TypeXHeader :: char where "TypeXHeader = CHR ''x''"
definition TypeXGlobalHeader :: char where "TypeXGlobalHeader = CHR ''g''"

record tar_entry =
  hdr :: Header
  body :: bytes

text \<open>How the stream of \<open>Next()\<close> results ends: \<open>io.EOF\<close> or another error.\<close>

datatype reader_end = EOF | ReadError string

record untar_args =
  dst :: string
  src :: string
  dir :: bool
  umask :: FileMode
  fileSizeLimit :: int64
  filesLimit :: go_int
  now :: time

record untar_state =
  finished :: bool
  dirHeaders :: "Header list"
  fileSize :: int64
  filesCount :: go_int
  log :: "fs_call list"

definition init_state :: untar_state where
  "init_state = \<lparr>finished = False, dirHeaders = [], fileSize = 0, filesCount = 0, log = []\<rparr>"

text \<open>The head of the loop (lines 110 to 115): the count is raised before \<open>Next()\<close> is called.\<close>

definition count_check :: "untar_args \<Rightarrow> untar_state \<Rightarrow> error option \<times> untar_state" where
  "count_check a st =
     (if 0 < sint (filesLimit a) then
        let st' = st\<lparr>filesCount := filesCount st + 1\<rparr> in
        if sint (filesLimit a) < sint (filesCount st')
        then (Some (ErrTooManyFiles (filesCount st') (filesLimit a)), st')
        else (None, st')
      else (None, st))"

definition header_times :: "time \<Rightarrow> Header \<Rightarrow> time \<times> time" where
  "header_times nw h =
     (if 0 < AccessTime h then AccessTime h else nw,
      if 0 < ModTime h then ModTime h else nw)"

text \<open>
  The body of the loop for a header that \<open>Next()\<close> returned (lines 130 to 194).
  \<open>None\<close> is the next iteration, \<open>Some e\<close> is \<open>return e\<close>.
\<close>

definition untar_entry ::
  "untar_args \<Rightarrow> os_model \<Rightarrow> untar_state \<Rightarrow> tar_entry \<Rightarrow> error option \<times> untar_state" where
  "untar_entry a os st e =
     (let header = hdr e in
      if Typeflag header = TypeXGlobalHeader \<or> Typeflag header = TypeXHeader then (None, st)
      else
        let fPath = (if dir a then filepath_Join (dst a) (Name header) else dst a);
            st1 = st\<lparr>fileSize := fileSize st + Size header\<rparr>
        in
        if 0 < sint (fileSizeLimit a) \<and> sint (fileSizeLimit a) < sint (fileSize st1)
        then (Some (ErrSizeLimit (fileSizeLimit a) (fileSize st1)), st1)
        else if FileInfo_IsDir header then
          (if \<not> dir a then (Some (ErrExpectedFile (src a) fPath), st1)
           else
             let c = MkdirAll fPath (umask a); st2 = st1\<lparr>log := log st1 @ [c]\<rparr> in
             if call_fails os (log st1) c then (Some (ErrMkdir fPath), st2)
             else (None, st2\<lparr>dirHeaders := dirHeaders st2 @ [header]\<rparr>))
        else
          let destPath = filepath_Dir fPath;
              c = MkdirAll destPath (umask a);
              mk = stat_not_exist os (log st1) destPath;
              st2 = (if mk then st1\<lparr>log := log st1 @ [c]\<rparr> else st1)
          in
          if mk \<and> call_fails os (log st1) c then (Some (ErrMkdir destPath), st2)
          else if \<not> dir a \<and> finished st2 then (Some (ErrMoreThanOneFile (src a)), st2)
          else
            let st3 = st2\<lparr>finished := True\<rparr>;
                (err, log4) = CopyReader os (log st3) (EntryData (body e)) fPath (umask a)
                                (fileSizeLimit a);
                st4 = st3\<lparr>log := log4\<rparr>
            in
            if err \<noteq> None then (err, st4)
            else
              let (aTime, mTime) = header_times (now a) header;
                  c5 = Chtimes fPath aTime mTime;
                  st5 = st4\<lparr>log := log st4 @ [c5]\<rparr>
              in
              if call_fails os (log st4) c5 then (Some (ErrChtimes fPath), st5)
              else (None, st5))"

text \<open>
  The loop (lines 109 to 195) over the results of \<open>Next()\<close>: the entries, then the end
  of the stream. \<open>None\<close> is the \<open>break\<close> at \<open>io.EOF\<close>.
\<close>

fun untar_loop ::
  "untar_args \<Rightarrow> os_model \<Rightarrow> untar_state \<Rightarrow> tar_entry list \<Rightarrow> reader_end
     \<Rightarrow> error option \<times> untar_state" where
  "untar_loop a os st [] fin =
     (case count_check a st of
        (Some err, st') \<Rightarrow> (Some err, st')
      | (None, st') \<Rightarrow>
          (case fin of
             ReadError m \<Rightarrow> (Some (ErrReader m), st')
           | EOF \<Rightarrow> if \<not> finished st' then (Some (ErrEmpty (src a)), st') else (None, st')))"
| "untar_loop a os st (e # es) fin =
     (case count_check a st of
        (Some err, st') \<Rightarrow> (Some err, st')
      | (None, st') \<Rightarrow>
          (case untar_entry a os st' e of
             (Some err, st'') \<Rightarrow> (Some err, st'')
           | (None, st'') \<Rightarrow> untar_loop a os st'' es fin))"

text \<open>The second loop (lines 197 to 216), over the directory headers collected.\<close>

fun dir_fixups ::
  "untar_args \<Rightarrow> os_model \<Rightarrow> fs_call list \<Rightarrow> Header list \<Rightarrow> error option \<times> fs_call list" where
  "dir_fixups a os lg [] = (None, lg)"
| "dir_fixups a os lg (dirHeader # hs) =
     (let path = filepath_Join (dst a) (Name dirHeader);
          c1 = Chmod path (FileInfo_Mode dirHeader); lg1 = lg @ [c1] in
      if call_fails os lg c1 then (Some (ErrDirChmod path), lg1)
      else
        let (aTime, mTime) = header_times (now a) dirHeader;
            c2 = Chtimes path aTime mTime; lg2 = lg1 @ [c2] in
        if call_fails os lg1 c2 then (Some (ErrDirChtimes path), lg2)
        else dir_fixups a os lg2 hs)"

text \<open>\<open>untar\<close>: the error returned (\<open>None\<close> is \<open>nil\<close>) and the calls made on the file system.\<close>

definition untar ::
  "untar_args \<Rightarrow> os_model \<Rightarrow> tar_entry list \<Rightarrow> reader_end \<Rightarrow> error option \<times> fs_call list" where
  "untar a os input fin =
     (case untar_loop a os init_state input fin of
        (Some err, st) \<Rightarrow> (Some err, log st)
      | (None, st) \<Rightarrow> dir_fixups a os (log st) (dirHeaders st))"

section \<open>expand: the registry\<close>

text \<open>
  The two expanders of the repository, as values of the interface \<open>Expander\<close>, with their
  \<open>Matcher\<close> methods. The registry is the global slice \<open>expanders\<close>, passed explicitly.
  \<open>GetExpander\<close> calls \<open>Matcher\<close> through the interface, so it is written for any
  element type and any \<open>Matcher\<close>.
\<close>

datatype Expander =
    TarExpander (FileSizeLimit: int64) (FilesLimit: go_int)
  | Bzip2Expander (FileSizeLimit: int64)

fun Matcher :: "Expander \<Rightarrow> string \<Rightarrow> bool" where
  "Matcher (TarExpander _ _) fileName =
     list_ex (\<lambda>ext. strings_Contains fileName ext) [''tar'', ''tgz'', ''tbz2'']"
| "Matcher (Bzip2Expander _) extension =
     ((strings_Contains extension ''bz2'' \<or> strings_Contains extension ''bzip2'')
      \<and> \<not> strings_Contains extension ''tar'')"

fun GetExpander :: "('e \<Rightarrow> string \<Rightarrow> bool) \<Rightarrow> 'e list \<Rightarrow> string \<Rightarrow> 'e option" where
  "GetExpander matcher [] extension = None"
| "GetExpander matcher (expander # rest) extension =
     (if matcher expander extension then Some expander
      else GetExpander matcher rest extension)"

definition RegisterExpander :: "'e list \<Rightarrow> 'e \<Rightarrow> 'e list" where
  "RegisterExpander expanders e = expanders @ [e]"

section \<open>expand/bzip2: Bzip2Expander.Expand\<close>

text \<open>
  The decompressed stream is the sequence of results of \<open>bzipReader.Read(buffer)\<close>: reads
  that return their bytes with a \<open>nil\<close> error, then one last read that returns its bytes
  (possibly none) with \<open>io.EOF\<close> or another error.
\<close>

text \<open>The block \<open>if n > 0\<close> of the loop (lines 84 to 92), with the running \<open>totalBytes\<close>.\<close>

definition write_chunk ::
  "os_model \<Rightarrow> Expander \<Rightarrow> string \<Rightarrow> fs_call list \<Rightarrow> int64 \<Rightarrow> bytes
     \<Rightarrow> error option \<times> fs_call list \<times> int64" where
  "write_chunk os b outputFile lg totalBytes buf =
     (let n = length buf in
      if 0 < n then
        (if sint (FileSizeLimit b) < sint (totalBytes + word_of_nat n)
         then (Some (ErrDecompressedSize (FileSizeLimit b)), lg, totalBytes)
         else
           let c = Write outputFile buf in
           if call_fails os lg c then (Some ErrWrite, lg @ [c], totalBytes)
           else (None, lg @ [c], totalBytes + word_of_nat n))
      else (None, lg, totalBytes))"

fun Expand_loop ::
  "os_model \<Rightarrow> Expander \<Rightarrow> string \<Rightarrow> fs_call list \<Rightarrow> int64 \<Rightarrow> bytes list
     \<Rightarrow> bytes \<times> reader_end \<Rightarrow> error option \<times> fs_call list" where
  "Expand_loop os b outputFile lg totalBytes [] (buf, fin) =
     (case write_chunk os b outputFile lg totalBytes buf of
        (Some err, lg', _) \<Rightarrow> (Some err, lg')
      | (None, lg', _) \<Rightarrow>
          (case fin of
             EOF \<Rightarrow> (None, lg')
           | ReadError m \<Rightarrow> (Some (ErrDecompression m), lg')))"
| "Expand_loop os b outputFile lg totalBytes (buf # rest) lastRead =
     (case write_chunk os b outputFile lg totalBytes buf of
        (Some err, lg', _) \<Rightarrow> (Some err, lg')
      | (None, lg', totalBytes') \<Rightarrow> Expand_loop os b outputFile lg' totalBytes' rest lastRead)"

definition Bzip2Expander_Expand ::
  "os_model \<Rightarrow> string option \<Rightarrow> bytes list \<Rightarrow> bytes \<times> reader_end \<Rightarrow> Expander
     \<Rightarrow> string \<Rightarrow> string \<Rightarrow> bool \<Rightarrow> FileMode \<Rightarrow> error option \<times> fs_call list" where
  "Bzip2Expander_Expand os home reads lastRead b src0 dst0 dir0 umask0 =
     (case ExpandTilde home src0 of
        Inl _ \<Rightarrow> (Some ErrExpandSource, [])
      | Inr src1 \<Rightarrow>
     (case ExpandTilde home dst0 of
        Inl _ \<Rightarrow> (Some ErrExpandDestination, [])
      | Inr dst1 \<Rightarrow>
          if dir0 then (Some ErrBzip2SingleFile, [])
          else
            let c0 = Open src1 in
            if call_fails os [] c0 then (Some (ErrOpenBzip2 src1), [c0])
            else
              let outputFile =
                    (if filepath_Base dst1 = [] then filepath_Join dst1 (filepath_Base src1)
                     else dst1)
              in
              if ContainsDotDot outputFile then (Some ErrBzip2Escape, [c0])
              else
                let c1 = MkdirAll (filepath_Dir outputFile) umask0 in
                if call_fails os [c0] c1 then (Some (ErrMkdir (filepath_Dir outputFile)), [c0, c1])
                else
                  let c2 = OpenFile outputFile O_WRONLY_CREATE_TRUNC 420 in
                  if call_fails os [c0, c1] c2 then (Some (ErrCreateFile outputFile), [c0, c1, c2])
                  else Expand_loop os b outputFile [c0, c1, c2] 0 reads lastRead))"

section \<open>Notions used in the statements\<close>

text \<open>
  How \<open>untar\<close> classifies an entry: an extended header is skipped, an entry whose
  \<open>FileInfo().IsDir()\<close> holds is a directory, and every other entry is written as a file.
\<close>

definition is_ext :: "tar_entry \<Rightarrow> bool" where
  "is_ext e = (Typeflag (hdr e) = TypeXGlobalHeader \<or> Typeflag (hdr e) = TypeXHeader)"

definition is_dir :: "tar_entry \<Rightarrow> bool" where
  "is_dir e = (\<not> is_ext e \<and> FileInfo_IsDir (hdr e))"

definition is_file :: "tar_entry \<Rightarrow> bool" where
  "is_file e = (\<not> is_ext e \<and> \<not> FileInfo_IsDir (hdr e))"

text \<open>The path \<open>fPath\<close> of an entry (lines 134 to 140) and the reader \<open>CopyReader\<close> copies from.\<close>

definition entry_path :: "untar_args \<Rightarrow> tar_entry \<Rightarrow> string" where
  "entry_path a e = (if dir a then filepath_Join (dst a) (Name (hdr e)) else dst a)"

definition copy_source :: "untar_args \<Rightarrow> tar_entry \<Rightarrow> reader" where
  "copy_source a e =
     (if 0 < sint (fileSizeLimit a) then LimitReader (EntryData (body e)) (fileSizeLimit a)
      else EntryData (body e))"

text \<open>The calls the loop can make for one entry, in the order it makes them.\<close>

definition entry_calls :: "untar_args \<Rightarrow> tar_entry \<Rightarrow> fs_call list" where
  "entry_calls a e =
     (if is_ext e then []
      else if FileInfo_IsDir (hdr e) then [MkdirAll (entry_path a e) (umask a)]
      else [MkdirAll (filepath_Dir (entry_path a e)) (umask a),
            OpenFile (entry_path a e) O_RDWR_CREATE_TRUNC (umask a),
            IoCopy (entry_path a e) (copy_source a e),
            Chmod (entry_path a e) (umask a),
            Chtimes (entry_path a e) (fst (header_times (now a) (hdr e)))
              (snd (header_times (now a) (hdr e)))])"

text \<open>
  The calls of an iteration that ends without an error: the parent directory is created
  only when \<open>os.Stat\<close> reports it missing.
\<close>

definition ok_calls :: "untar_args \<Rightarrow> os_model \<Rightarrow> untar_state \<Rightarrow> tar_entry \<Rightarrow> fs_call list" where
  "ok_calls a os st e =
     (if is_ext e then []
      else if FileInfo_IsDir (hdr e) then [MkdirAll (entry_path a e) (umask a)]
      else (if stat_not_exist os (log st) (filepath_Dir (entry_path a e))
            then [MkdirAll (filepath_Dir (entry_path a e)) (umask a)] else [])
           @ tl (entry_calls a e))"

text \<open>
  The state at the head of the loop once the entries \<open>pre\<close> have been processed, each
  by an iteration that ended without an error; \<open>None\<close> when one of them returned.
\<close>

fun loop_prefix ::
  "untar_args \<Rightarrow> os_model \<Rightarrow> untar_state \<Rightarrow> tar_entry list \<Rightarrow> untar_state option" where
  "loop_prefix a os st [] = Some st"
| "loop_prefix a os st (e # es) =
     (case count_check a st of
        (Some err, st') \<Rightarrow> None
      | (None, st') \<Rightarrow>
          (case untar_entry a os st' e of
             (Some err, st'') \<Rightarrow> None
           | (None, st'') \<Rightarrow> loop_prefix a os st'' es))"

text \<open>The calls of the second loop when none of them fails.\<close>

definition fixup_calls :: "untar_args \<Rightarrow> Header list \<Rightarrow> fs_call list" where
  "fixup_calls a hs =
     concat (map (\<lambda>h. [Chmod (filepath_Join (dst a) (Name h)) (FileInfo_Mode h),
                        Chtimes (filepath_Join (dst a) (Name h)) (fst (header_times (now a) h))
                          (snd (header_times (now a) h))]) hs)"

fun is_IoCopy :: "fs_call \<Rightarrow> bool" where
  "is_IoCopy (IoCopy _ _) = True"
| "is_IoCopy _ = False"

text \<open>
  The running total \<open>fileSize\<close> after the entries \<open>es\<close>: the sum of the declared sizes
  of the entries that are not extended headers, in \<open>int64\<close> arithmetic.
\<close>

definition declared_sum :: "tar_entry list \<Rightarrow> int64" where
  "declared_sum es = sum_list (map (\<lambda>e. Size (hdr e)) (filter (\<lambda>e. \<not> is_ext e) es))"





section \<open>Inputs used in the examples\<close>

text \<open>
  An operating system on which no call fails and no path exists beforehand. File modes are
  written in decimal: 420 is octal 644 and 493 is octal 755.
\<close>

definition ok_os :: os_model where
  "ok_os = \<lparr>call_fails = (\<lambda>_ _. False), stat_not_exist = (\<lambda>_ _. True)\<rparr>"

definition file_entry :: "string \<Rightarrow> bytes \<Rightarrow> tar_entry" where
  "file_entry n bs =
     \<lparr>hdr = \<lparr>Name = n, Typeflag = CHR ''0'', Size = word_of_nat (length bs), AccessTime = 0,
             ModTime = 1700000000, FileInfo_IsDir = False, FileInfo_Mode = 420\<rparr>,
      body = bs\<rparr>"

definition dir_entry :: "string \<Rightarrow> tar_entry" where
  "dir_entry n =
     \<lparr>hdr = \<lparr>Name = n, Typeflag = CHR ''5'', Size = 0, AccessTime = 0,
             ModTime = 1700000000, FileInfo_IsDir = True, FileInfo_Mode = 493\<rparr>,
      body = []\<rparr>"

definition pax_entry :: tar_entry where
  "pax_entry =
     \<lparr>hdr = \<lparr>Name = ''pax_global_header'', Typeflag = TypeXGlobalHeader, Size = 52,
             AccessTime = 0, ModTime = 0, FileInfo_IsDir = False, FileInfo_Mode = 420\<rparr>,
      body = []\<rparr>"

text \<open>A file header whose declared size is chosen freely, with the bytes the reader delivers for it.\<close>

definition sized_entry :: "string \<Rightarrow> int64 \<Rightarrow> bytes \<Rightarrow> tar_entry" where
  "sized_entry n sz bs =
     \<lparr>hdr = \<lparr>Name = n, Typeflag = CHR ''0'', Size = sz, AccessTime = 0,
             ModTime = 1700000000, FileInfo_IsDir = False, FileInfo_Mode = 420\<rparr>,
      body = bs\<rparr>"

definition args0 :: untar_args where
  "args0 = \<lparr>dst = ''/dst'', src = ''a.tar'', dir = True, umask = 493, fileSizeLimit = 0,
            filesLimit = 0, now = 1800000000\<rparr>"



section \<open>Evaluation of the examples\<close>

lemmas untar_eval =
  untar_def args0_def ok_os_def file_entry_def dir_entry_def pax_entry_def sized_entry_def
  init_state_def count_check_def untar_entry_def CopyReader_def header_times_def TypeXHeader_def
  TypeXGlobalHeader_def Let_def filepath_Join_def filepath_Clean_def render_path_def
  filepath_Dir_def upto_last_slash_def rooted_def path_comps_def split_slash_def

lemmas bzip2_eval =
  Bzip2Expander_Expand_def ExpandTilde_def strings_HasPrefix_def ok_os_def filepath_Base_def
  ContainsDotDot_def strings_Contains_def strings_FieldsFunc_def isSlash_def sublist_code
  write_chunk_def filepath_Join_def filepath_Clean_def render_path_def filepath_Dir_def
  upto_last_slash_def rooted_def path_comps_def split_slash_def Let_def


lemmas class_eval = is_ext_def is_dir_def is_file_def file_entry_def dir_entry_def pax_entry_def
  TypeXHeader_def TypeXGlobalHeader_def

section \<open>The registry\<close>

lemma foldl_RegisterExpander: "foldl RegisterExpander reg es = reg @ es"
  by (induction es arbitrary: reg) (simp_all add: RegisterExpander_def)

lemma GetExpander_None: "GetExpander m es ext = None \<longleftrightarrow> (\<forall>x\<in>set es. \<not> m x ext)"
  by (induction es) auto

lemma GetExpander_Some:
  "GetExpander m es ext = Some x \<longleftrightarrow>
     (\<exists>i<length es. es ! i = x \<and> m x ext \<and> (\<forall>j<i. \<not> m (es ! j) ext))"
proof (induction es)
  case Nil
  then show ?case by simp
next
  case (Cons e es)
  show ?case
  proof (cases "m e ext")
    case True
    have "(\<exists>i<length (e # es). (e # es) ! i = x \<and> m x ext \<and> (\<forall>j<i. \<not> m ((e # es) ! j) ext))
            \<longleftrightarrow> x = e"
    proof
      assume "\<exists>i<length (e # es). (e # es) ! i = x \<and> m x ext \<and> (\<forall>j<i. \<not> m ((e # es) ! j) ext)"
      then obtain i where i: "(e # es) ! i = x" "\<forall>j<i. \<not> m ((e # es) ! j) ext"
        by blast
      have "i = 0"
      proof (rule ccontr)
        assume "i \<noteq> 0"
        then have "0 < i" by simp
        with i(2) have "\<not> m ((e # es) ! 0) ext" by blast
        with True show False by simp
      qed
      with i(1) show "x = e" by simp
    next
      assume "x = e"
      with True
      show "\<exists>i<length (e # es). (e # es) ! i = x \<and> m x ext \<and> (\<forall>j<i. \<not> m ((e # es) ! j) ext)"
        by (intro exI[of _ 0]) simp
    qed
    with True show ?thesis by auto
  next
    case False
    have "(\<exists>i<length (e # es). (e # es) ! i = x \<and> m x ext \<and> (\<forall>j<i. \<not> m ((e # es) ! j) ext))
        \<longleftrightarrow> (\<exists>i<length es. es ! i = x \<and> m x ext \<and> (\<forall>j<i. \<not> m (es ! j) ext))"
      (is "?L \<longleftrightarrow> ?R")
    proof
      assume ?L
      then obtain i where i: "i < length (e # es)" "(e # es) ! i = x" "m x ext"
          "\<forall>j<i. \<not> m ((e # es) ! j) ext"
        by blast
      from i(2,3) False obtain k where k: "i = Suc k" by (cases i) auto
      have "\<forall>j<k. \<not> m (es ! j) ext"
      proof (intro allI impI)
        fix j assume "j < k"
        then have "Suc j < i" using k by simp
        with i(4) have "\<not> m ((e # es) ! Suc j) ext" by blast
        then show "\<not> m (es ! j) ext" by simp
      qed
      with i k show ?R by (intro exI[of _ k]) simp
    next
      assume ?R
      then obtain k where k: "k < length es" "es ! k = x" "m x ext" "\<forall>j<k. \<not> m (es ! j) ext"
        by blast
      have "\<forall>j<Suc k. \<not> m ((e # es) ! j) ext"
      proof (intro allI impI)
        fix j assume "j < Suc k"
        then show "\<not> m ((e # es) ! j) ext"
          using False k(4) by (cases j) auto
      qed
      with k show ?L by (intro exI[of _ "Suc k"]) simp
    qed
    with False Cons.IH show ?thesis by simp
  qed
qed

text \<open>
  Claim C7. Registering the expanders \<open>es\<close> one after the other on a registry \<open>reg\<close>
  leaves \<open>reg\<close> followed by \<open>es\<close>: the order of registration is kept and an expander
  registered twice is there twice. \<open>GetExpander\<close> returns nothing exactly when no registered
  expander matches the hint, and returns \<open>x\<close> exactly when \<open>x\<close> stands at a position of the
  registry where it matches and no expander at an earlier position matches.
\<close>

theorem registry_order_first_match:
  "foldl RegisterExpander reg es = reg @ es
   \<and> (GetExpander m reg ext = None \<longleftrightarrow> (\<forall>x\<in>set reg. \<not> m x ext))
   \<and> (GetExpander m reg ext = Some x \<longleftrightarrow>
        (\<exists>i<length reg. reg ! i = x \<and> m x ext \<and> (\<forall>j<i. \<not> m (reg ! j) ext)))"
  using foldl_RegisterExpander GetExpander_None GetExpander_Some by metis

theorem registry_order_first_match_witness:
  "foldl RegisterExpander [Bzip2Expander 5] [TarExpander 0 0, Bzip2Expander 0, Bzip2Expander 0] =
     [Bzip2Expander 5, TarExpander 0 0, Bzip2Expander 0, Bzip2Expander 0]
   \<and> GetExpander Matcher [Bzip2Expander 5, TarExpander 0 0, Bzip2Expander 0] ''a.zip'' = None
   \<and> GetExpander Matcher [Bzip2Expander 5, TarExpander 0 0, Bzip2Expander 0] ''a.tar.bz2''
       = Some (TarExpander 0 0)"
proof -
  let ?reg = "[Bzip2Expander 5, TarExpander 0 0, Bzip2Expander 0]"
  have none: "\<forall>x\<in>set ?reg. \<not> Matcher x ''a.zip''"
    by (simp add: strings_Contains_def sublist_code)
  have "(1::nat) < length ?reg \<and> ?reg ! 1 = TarExpander 0 0
      \<and> Matcher (TarExpander 0 0) ''a.tar.bz2'' \<and> (\<forall>j<1. \<not> Matcher (?reg ! j) ''a.tar.bz2'')"
    by (simp add: strings_Contains_def sublist_code)
  then have some: "\<exists>i<length ?reg. ?reg ! i = TarExpander 0 0
      \<and> Matcher (TarExpander 0 0) ''a.tar.bz2'' \<and> (\<forall>j<i. \<not> Matcher (?reg ! j) ''a.tar.bz2'')"
    by blast
  note a = registry_order_first_match
    [where reg = "[Bzip2Expander 5]"
       and es = "[TarExpander 0 0, Bzip2Expander 0, Bzip2Expander 0]"]
  note b = registry_order_first_match
    [where reg = ?reg and m = Matcher and ext = "''a.zip''"]
  note c = registry_order_first_match
    [where reg = ?reg and m = Matcher and ext = "''a.tar.bz2''" and x = "TarExpander 0 0"]
  from a have "foldl RegisterExpander [Bzip2Expander 5]
      [TarExpander 0 0, Bzip2Expander 0, Bzip2Expander 0] =
      [Bzip2Expander 5, TarExpander 0 0, Bzip2Expander 0, Bzip2Expander 0]"
    by simp
  moreover from b none have "GetExpander Matcher ?reg ''a.zip'' = None"
    by blast
  moreover from c some have "GetExpander Matcher ?reg ''a.tar.bz2'' = Some (TarExpander 0 0)"
    by blast
  ultimately show ?thesis by blast
qed

section \<open>Signed 64-bit arithmetic\<close>

lemma sint_succ: "sint (w::64 word) < sint (L::64 word) \<Longrightarrow> sint (w + 1) = sint w + 1"
proof -
  assume a: "sint w < sint L"
  have "sint L < 2 ^ 63" using sint_lt[of L] by simp
  with a have u: "sint w + 1 < 2 ^ 63" by simp
  have "- (2 ^ 63) \<le> sint w" using sint_ge[of w] by simp
  then have l: "- (2 ^ 63) \<le> sint w + 1" by simp
  show ?thesis using u l by (simp add: sint_word_ariths signed_take_bit_int_eq_self)
qed

lemma sint_succ_max: "sint (w::64 word) < 2 ^ 63 - 1 \<Longrightarrow> sint (w + 1) = sint w + 1"
proof -
  assume a: "sint w < 2 ^ 63 - 1"
  then have u: "sint w + 1 < 2 ^ 63" by simp
  have "- (2 ^ 63) \<le> sint w" using sint_ge[of w] by simp
  then have l: "- (2 ^ 63) \<le> sint w + 1" by simp
  show ?thesis using u l by (simp add: sint_word_ariths signed_take_bit_int_eq_self)
qed

lemma sint_of_small_nat:
  assumes "n < 2 ^ 63"
  shows "sint (word_of_nat n :: int64) = int n"
proof -
  have "int n < 2 ^ 63" using assms by (metis of_nat_less_iff of_nat_numeral of_nat_power)
  moreover have "- (2 ^ 63) \<le> int n" by (smt (verit) zero_le_power of_nat_0_le_iff)
  ultimately show ?thesis by (simp add: signed_of_nat signed_take_bit_int_eq_self)
qed

lemma sum_list_sint_nonneg: "\<forall>w\<in>set ws. 0 \<le> sint w \<Longrightarrow> 0 \<le> sum_list (map sint ws)"
  by (induction ws) auto

lemma sint_sum_list:
  fixes ws :: "int64 list"
  assumes "\<forall>w\<in>set ws. 0 \<le> sint w" "sum_list (map sint ws) < 2 ^ 63"
  shows "sint (sum_list ws) = sum_list (map sint ws)"
  using assms
proof (induction ws)
  case Nil
  then show ?case by simp
next
  case (Cons w ws)
  have nn: "0 \<le> sum_list (map sint ws)" using Cons.prems(1) by (intro sum_list_sint_nonneg) simp
  have w0: "0 \<le> sint w" using Cons.prems(1) by simp
  have "sum_list (map sint ws) < 2 ^ 63" using Cons.prems(2) w0 by simp
  with Cons have ih: "sint (sum_list ws) = sum_list (map sint ws)" by simp
  have u: "sint w + sum_list (map sint ws) < 2 ^ 63" using Cons.prems(2) by simp
  have l: "- (2 ^ 63) \<le> sint w + sum_list (map sint ws)" using nn w0 by simp
  show ?case using u l ih by (simp add: sint_word_ariths signed_take_bit_int_eq_self)
qed

section \<open>One iteration of the loop\<close>

lemma CopyReader_log:
  "CopyReader os lg (EntryData bs) p m lim = (r, lg') \<Longrightarrow>
     \<exists>new. lg' = lg @ new \<and>
       set new \<subseteq> {OpenFile p O_RDWR_CREATE_TRUNC m,
                   IoCopy p (if 0 < sint lim then LimitReader (EntryData bs) lim else EntryData bs),
                   Chmod p m}"
  by (auto simp: CopyReader_def Let_def split: if_splits)

lemma CopyReader_ok:
  "CopyReader os lg (EntryData bs) p m lim = (None, lg') \<Longrightarrow>
     lg' = lg @ [OpenFile p O_RDWR_CREATE_TRUNC m,
                 IoCopy p (if 0 < sint lim then LimitReader (EntryData bs) lim else EntryData bs),
                 Chmod p m]"
  by (auto simp: CopyReader_def Let_def split: if_splits)

lemma untar_entry_log:
  assumes "untar_entry a os st e = (r, st')"
  shows "\<exists>new. log st' = log st @ new \<and> set new \<subseteq> set (entry_calls a e)"
  using assms
  apply (simp add: untar_entry_def Let_def is_ext_def[symmetric] split: if_splits prod.splits)
  apply (auto simp: entry_calls_def entry_path_def copy_source_def is_ext_def dest!: CopyReader_log split: if_splits)
  done

lemma untar_entry_ok_log:
  "untar_entry a os st e = (None, st') \<Longrightarrow> log st' = log st @ ok_calls a os st e"
  apply (simp add: untar_entry_def Let_def is_ext_def[symmetric] split: if_splits prod.splits)
       apply (auto simp: ok_calls_def entry_calls_def entry_path_def copy_source_def is_ext_def
      dest!: CopyReader_ok split: if_splits)
  done

lemma untar_entry_ext: "is_ext e \<Longrightarrow> untar_entry a os st e = (None, st)"
  by (simp add: untar_entry_def is_ext_def Let_def)

lemma untar_entry_fileSize:
  "untar_entry a os st e = (r, st') \<Longrightarrow>
     fileSize st' = (if is_ext e then fileSize st else fileSize st + Size (hdr e))"
  by (auto simp: untar_entry_def Let_def is_ext_def split: if_splits prod.splits)

lemma untar_entry_filesCount:
  "untar_entry a os st e = (r, st') \<Longrightarrow> filesCount st' = filesCount st"
  by (auto simp: untar_entry_def Let_def is_ext_def split: if_splits prod.splits)

lemma untar_entry_dirHeaders:
  "untar_entry a os st e = (None, st') \<Longrightarrow>
     dirHeaders st' = dirHeaders st @ (if is_dir e then [hdr e] else [])"
  by (auto simp: untar_entry_def Let_def is_ext_def is_dir_def split: if_splits prod.splits)


lemma untar_entry_size_ok:
  "untar_entry a os st e = (None, st') \<Longrightarrow> \<not> is_ext e \<Longrightarrow> 0 < sint (fileSizeLimit a) \<Longrightarrow>
     \<not> sint (fileSizeLimit a) < sint (fileSize st + Size (hdr e))"
  by (auto simp: untar_entry_def Let_def is_ext_def split: if_splits prod.splits)

lemma untar_entry_size_error:
  "\<not> is_ext e \<Longrightarrow> 0 < sint (fileSizeLimit a) \<Longrightarrow>
   sint (fileSizeLimit a) < sint (fileSize st + Size (hdr e)) \<Longrightarrow>
   untar_entry a os st e =
     (Some (ErrSizeLimit (fileSizeLimit a) (fileSize st + Size (hdr e))),
      st\<lparr>fileSize := fileSize st + Size (hdr e)\<rparr>)"
  by (simp add: untar_entry_def Let_def is_ext_def)

lemma untar_entry_size_error_only:
  "untar_entry a os st e = (Some (ErrSizeLimit l s), st') \<Longrightarrow>
     \<not> is_ext e \<and> 0 < sint (fileSizeLimit a) \<and> l = fileSizeLimit a \<and> s = fileSize st + Size (hdr e)
     \<and> sint (fileSizeLimit a) < sint s \<and> log st' = log st"
  by (auto simp: untar_entry_def Let_def is_ext_def CopyReader_def split: if_splits prod.splits)

lemma untar_entry_dir_ok:
  assumes "is_dir e" "dir a"
    "\<not> (0 < sint (fileSizeLimit a) \<and> sint (fileSizeLimit a) < sint (fileSize st + Size (hdr e)))"
    "\<not> call_fails os (log st) (MkdirAll (entry_path a e) (umask a))"
  shows "untar_entry a os st e =
     (None, st\<lparr>fileSize := fileSize st + Size (hdr e),
               log := log st @ [MkdirAll (entry_path a e) (umask a)],
               dirHeaders := dirHeaders st @ [hdr e]\<rparr>)"
  using assms by (simp add: untar_entry_def is_dir_def is_ext_def entry_path_def Let_def)





lemma count_check_log: "count_check a st = (r, st') \<Longrightarrow> log st' = log st"
  by (auto simp: count_check_def Let_def split: if_splits)

lemma count_check_fields:
  "count_check a st = (r, st') \<Longrightarrow>
     log st' = log st \<and> finished st' = finished st \<and> dirHeaders st' = dirHeaders st
     \<and> fileSize st' = fileSize st"
  by (auto simp: count_check_def Let_def split: if_splits)

lemma count_check_not_size: "count_check a st = (Some (ErrSizeLimit l s), st') \<Longrightarrow> False"
  by (auto simp: count_check_def Let_def split: if_splits)


lemma count_check_pass:
  assumes "\<not> 0 < sint (filesLimit a) \<or> sint (filesCount st) < sint (filesLimit a)"
  shows "\<exists>st'. count_check a st = (None, st') \<and> log st' = log st \<and> finished st' = finished st
           \<and> dirHeaders st' = dirHeaders st \<and> fileSize st' = fileSize st
           \<and> sint (filesCount st') = (if 0 < sint (filesLimit a) then sint (filesCount st) + 1
                                       else sint (filesCount st))"
proof (cases "0 < sint (filesLimit a)")
  case False
  then show ?thesis by (simp add: count_check_def)
next
  case True
  with assms have lt: "sint (filesCount st) < sint (filesLimit a)" by simp
  from sint_succ[OF lt] lt True show ?thesis by (simp add: count_check_def Let_def)
qed

section \<open>The declared sizes\<close>

lemma declared_sum_Cons:
  "declared_sum (e # es) = (if is_ext e then declared_sum es else Size (hdr e) + declared_sum es)"
  by (simp add: declared_sum_def)

lemma declared_sum_snoc:
  "declared_sum (pre @ [e]) = (if is_ext e then declared_sum pre else declared_sum pre + Size (hdr e))"
  by (simp add: declared_sum_def)

lemma declared_sum_zero:
  "\<forall>e\<in>set es. \<not> is_ext e \<longrightarrow> Size (hdr e) = 0 \<Longrightarrow> declared_sum es = 0"
  by (induction es) (auto simp: declared_sum_Cons declared_sum_def)

lemma declared_sum_exact:
  assumes "\<forall>e\<in>set es. 0 \<le> sint (Size (hdr e))"
    "sum_list (map (\<lambda>e. sint (Size (hdr e))) (filter (\<lambda>e. \<not> is_ext e) es)) < 2 ^ 63"
  shows "sint (declared_sum es)
     = sum_list (map (\<lambda>e. sint (Size (hdr e))) (filter (\<lambda>e. \<not> is_ext e) es))"
proof -
  let ?ws = "map (\<lambda>e. Size (hdr e)) (filter (\<lambda>e. \<not> is_ext e) es)"
  have m: "map sint ?ws = map (\<lambda>e. sint (Size (hdr e))) (filter (\<lambda>e. \<not> is_ext e) es)"
    by (simp add: comp_def)
  have "\<forall>w\<in>set ?ws. 0 \<le> sint w" using assms(1) by auto
  moreover have "sum_list (map sint ?ws) < 2 ^ 63" unfolding m using assms(2) .
  ultimately have "sint (sum_list ?ws) = sum_list (map sint ?ws)" by (rule sint_sum_list)
  then show ?thesis unfolding m declared_sum_def .
qed

section \<open>The loop\<close>

lemma loop_prefix_append:
  "loop_prefix a os st pre = Some st' \<Longrightarrow>
     untar_loop a os st (pre @ rest) fin = untar_loop a os st' rest fin"
  by (induction pre arbitrary: st) (auto split: prod.splits option.splits)

lemma loop_prefix_snoc:
  "loop_prefix a os st (pre @ [e]) =
     (case loop_prefix a os st pre of
        None \<Rightarrow> None
      | Some st1 \<Rightarrow>
         (case count_check a st1 of
            (Some err, st') \<Rightarrow> None
          | (None, st') \<Rightarrow>
             (case untar_entry a os st' e of (Some err, st'') \<Rightarrow> None | (None, st'') \<Rightarrow> Some st'')))"
  by (induction pre arbitrary: st) (auto split: prod.splits option.splits)

lemma loop_prefix_take:
  "loop_prefix a os st pre = Some st' \<Longrightarrow> n \<le> length pre \<Longrightarrow>
     \<exists>st1. loop_prefix a os st (take n pre) = Some st1"
proof (induction pre arbitrary: st n)
  case Nil then show ?case by simp
next
  case (Cons e es)
  obtain st1 where c: "count_check a st = (None, st1)"
    using Cons.prems by (auto split: prod.splits option.splits)
  obtain st2 where u: "untar_entry a os st1 e = (None, st2)"
    using Cons.prems c by (auto split: prod.splits option.splits)
  from Cons.prems c u have l: "loop_prefix a os st2 es = Some st'" by simp
  show ?case
  proof (cases n)
    case 0 then show ?thesis by simp
  next
    case (Suc k)
    with Cons.prems(2) have "k \<le> length es" by simp
    from Cons.IH[OF l this] obtain st3 where "loop_prefix a os st2 (take k es) = Some st3" by blast
    with c u Suc show ?thesis by simp
  qed
qed


lemma loop_prefix_fileSize:
  "loop_prefix a os st pre = Some st' \<Longrightarrow> fileSize st' = fileSize st + declared_sum pre"
proof (induction pre arbitrary: st)
  case Nil then show ?case by (simp add: declared_sum_def)
next
  case (Cons e es)
  obtain st1 where c: "count_check a st = (None, st1)"
    using Cons.prems by (auto split: prod.splits option.splits)
  obtain st2 where u: "untar_entry a os st1 e = (None, st2)"
    using Cons.prems c by (auto split: prod.splits option.splits)
  from Cons.prems c u have "loop_prefix a os st2 es = Some st'" by simp
  from Cons.IH[OF this] untar_entry_fileSize[OF u] count_check_fields[OF c]
  show ?case by (simp add: declared_sum_Cons add.assoc)
qed

lemma loop_prefix_size_ok:
  assumes "loop_prefix a os st pre = Some st'" "0 < sint (fileSizeLimit a)" "n \<le> length pre" "0 < n"
    "\<not> is_ext (pre ! (n - 1))"
  shows "\<not> sint (fileSizeLimit a) < sint (fileSize st + declared_sum (take n pre))"
proof -
  obtain k where k: "n = Suc k" using assms(4) by (cases n) auto
  with assms(3) have kl: "k < length pre" by simp
  then have t: "take n pre = take k pre @ [pre ! k]" using k by (simp add: take_Suc_conv_app_nth)
  from loop_prefix_take[OF assms(1) assms(3)] obtain st2 where
    s2: "loop_prefix a os st (take n pre) = Some st2" by blast
  from s2[unfolded t loop_prefix_snoc]
  obtain st0 st1 where p: "loop_prefix a os st (take k pre) = Some st0"
    "count_check a st0 = (None, st1)" "untar_entry a os st1 (pre ! k) = (None, st2)"
    by (auto split: option.splits prod.splits)
  from assms(5) k have ne: "\<not> is_ext (pre ! k)" by simp
  from untar_entry_size_ok[OF p(3) ne assms(2)]
  have "\<not> sint (fileSizeLimit a) < sint (fileSize st1 + Size (hdr (pre ! k)))" .
  moreover have "fileSize st1 = fileSize st + declared_sum (take k pre)"
    using loop_prefix_fileSize[OF p(1)] count_check_fields[OF p(2)] by simp
  ultimately show ?thesis using ne by (simp add: t declared_sum_snoc add.assoc)
qed

lemma loop_prefix_totals_ok:
  assumes "loop_prefix a os st pre = Some st'" "0 < sint (fileSizeLimit a)"
    "\<not> sint (fileSizeLimit a) < sint (fileSize st)" "n \<le> length pre"
  shows "\<not> sint (fileSizeLimit a) < sint (fileSize st + declared_sum (take n pre))"
  using assms(4)
proof (induction n)
  case 0
  then show ?case using assms(3) by (simp add: declared_sum_def)
next
  case (Suc k)
  then have kl: "k < length pre" by simp
  show ?case
  proof (cases "is_ext (pre ! k)")
    case True
    have "take (Suc k) pre = take k pre @ [pre ! k]" using kl by (simp add: take_Suc_conv_app_nth)
    then have "declared_sum (take (Suc k) pre) = declared_sum (take k pre)"
      using True by (simp add: declared_sum_snoc)
    with Suc show ?thesis by simp
  next
    case False
    then show ?thesis using loop_prefix_size_ok[OF assms(1,2) Suc.prems] by simp
  qed
qed


lemma untar_loop_log:
  "untar_loop a os st input fin = (r, st') \<Longrightarrow>
     \<exists>new. log st' = log st @ new \<and> set new \<subseteq> (\<Union>e\<in>set input. set (entry_calls a e))"
proof (induction input arbitrary: st)
  case Nil
  then show ?case
    by (auto split: prod.splits option.splits reader_end.splits if_splits dest: count_check_log)
next
  case (Cons e es)
  obtain r1 st1 where c: "count_check a st = (r1, st1)" by (cases "count_check a st")
  show ?case
  proof (cases r1)
    case (Some err)
    with c Cons.prems show ?thesis by (auto dest: count_check_log)
  next
    case None
    obtain r2 st2 where u: "untar_entry a os st1 e = (r2, st2)" by (cases "untar_entry a os st1 e")
    from untar_entry_log[OF u] obtain n1 where n1: "log st2 = log st1 @ n1" "set n1 \<subseteq> set (entry_calls a e)"
      by blast
    have l1: "log st1 = log st" using c by (rule count_check_log)
    show ?thesis
    proof (cases r2)
      case (Some err)
      with c None u Cons.prems have "st' = st2" by simp
      with n1 l1 show ?thesis by auto
    next
      case None2: None
      with c None u Cons.prems have "untar_loop a os st2 es fin = (r, st')" by simp
      from Cons.IH[OF this] obtain n2 where n2: "log st' = log st2 @ n2"
        "set n2 \<subseteq> (\<Union>e\<in>set es. set (entry_calls a e))" by blast
      have "log st' = log st @ (n1 @ n2)" using n1 n2 l1 by simp
      moreover have "set (n1 @ n2) \<subseteq> (\<Union>e\<in>set (e # es). set (entry_calls a e))"
        using n1(2) n2(2) by auto
      ultimately show ?thesis by blast
    qed
  qed
qed

lemma untar_loop_dirHeaders:
  "untar_loop a os st input fin = (None, st') \<Longrightarrow>
     dirHeaders st' = dirHeaders st @ map hdr (filter is_dir input)"
proof (induction input arbitrary: st)
  case Nil
  then show ?case
    by (auto split: prod.splits option.splits reader_end.splits if_splits dest: count_check_fields)
next
  case (Cons e es)
  obtain st1 where c: "count_check a st = (None, st1)"
    using Cons.prems by (auto split: prod.splits option.splits)
  obtain st2 where u: "untar_entry a os st1 e = (None, st2)"
    using Cons.prems c by (auto split: prod.splits option.splits)
  from Cons.prems c u have "untar_loop a os st2 es fin = (None, st')" by simp
  from Cons.IH[OF this] untar_entry_dirHeaders[OF u] count_check_fields[OF c]
  show ?case by simp
qed

lemma filter_copy_ok_calls:
  "filter is_IoCopy (ok_calls a os st e) =
     (if is_file e then [IoCopy (entry_path a e) (copy_source a e)] else [])"
  by (auto simp: ok_calls_def entry_calls_def is_file_def)

lemma untar_loop_copies:
  "untar_loop a os st input fin = (None, st') \<Longrightarrow>
     filter is_IoCopy (log st') =
       filter is_IoCopy (log st)
       @ map (\<lambda>e. IoCopy (entry_path a e) (copy_source a e)) (filter is_file input)"
proof (induction input arbitrary: st)
  case Nil
  then show ?case
    by (auto split: prod.splits option.splits reader_end.splits if_splits dest: count_check_fields)
next
  case (Cons e es)
  obtain st1 where c: "count_check a st = (None, st1)"
    using Cons.prems by (auto split: prod.splits option.splits)
  obtain st2 where u: "untar_entry a os st1 e = (None, st2)"
    using Cons.prems c by (auto split: prod.splits option.splits)
  from Cons.prems c u have "untar_loop a os st2 es fin = (None, st')" by simp
  from Cons.IH[OF this] untar_entry_ok_log[OF u] count_check_fields[OF c]
  show ?case by (simp add: filter_copy_ok_calls)
qed

lemma untar_loop_size_error:
  "untar_loop a os st input fin = (Some (ErrSizeLimit l s), st') \<Longrightarrow>
     \<exists>pre e rest st1. input = pre @ e # rest \<and> loop_prefix a os st pre = Some st1
        \<and> \<not> is_ext e \<and> 0 < sint (fileSizeLimit a) \<and> l = fileSizeLimit a
        \<and> s = fileSize st1 + Size (hdr e) \<and> sint l < sint s \<and> log st' = log st1"
proof (induction input arbitrary: st)
  case Nil
  then show ?case
    by (auto split: prod.splits option.splits reader_end.splits if_splits dest: count_check_not_size)
next
  case (Cons e es)
  obtain r1 st1 where c: "count_check a st = (r1, st1)" by (cases "count_check a st")
  show ?case
  proof (cases r1)
    case (Some err)
    with c Cons.prems show ?thesis by (auto dest: count_check_not_size)
  next
    case None
    obtain r2 st2 where u: "untar_entry a os st1 e = (r2, st2)" by (cases "untar_entry a os st1 e")
    show ?thesis
    proof (cases r2)
      case (Some err)
      with c None u Cons.prems have e: "untar_entry a os st1 e = (Some (ErrSizeLimit l s), st')"
        by simp
      from untar_entry_size_error_only[OF e] count_check_fields[OF c]
      have "e # es = [] @ e # es \<and> loop_prefix a os st [] = Some st
        \<and> \<not> is_ext e \<and> 0 < sint (fileSizeLimit a) \<and> l = fileSizeLimit a
        \<and> s = fileSize st + Size (hdr e) \<and> sint l < sint s \<and> log st' = log st"
        by auto
      then show ?thesis by blast
    next
      case None2: None
      with c None u Cons.prems have "untar_loop a os st2 es fin = (Some (ErrSizeLimit l s), st')"
        by simp
      from Cons.IH[OF this] obtain pre e' rest st3 where
        p: "es = pre @ e' # rest" "loop_prefix a os st2 pre = Some st3"
        "\<not> is_ext e'" "0 < sint (fileSizeLimit a)" "l = fileSizeLimit a"
        "s = fileSize st3 + Size (hdr e')" "sint l < sint s" "log st' = log st3"
        by blast
      have "loop_prefix a os st (e # pre) = Some st3" using c None u None2 p(2) by simp
      moreover have "e # es = (e # pre) @ e' # rest" using p(1) by simp
      ultimately show ?thesis using p(3-8) by blast
    qed
  qed
qed



lemma untar_loop_count_exhausted:
  assumes "0 < sint (filesLimit a)" "sint (filesLimit a) < 2 ^ 63 - 1"
  shows "sint (filesCount st) \<le> sint (filesLimit a) \<Longrightarrow>
     sint (filesLimit a) \<le> sint (filesCount st) + int (length input) \<Longrightarrow>
     fst (untar_loop a os st input fin) \<noteq> None"
proof (induction input arbitrary: st)
  case Nil
  then have eq: "sint (filesCount st) = sint (filesLimit a)" by simp
  then have "sint (filesCount st + 1) = sint (filesLimit a) + 1"
    using sint_succ_max[of "filesCount st"] assms(2) by simp
  then show ?case using assms(1) by (simp add: count_check_def Let_def)
next
  case (Cons e es)
  have s: "sint (filesCount st + 1) = sint (filesCount st) + 1"
    using sint_succ_max[of "filesCount st"] assms(2) Cons.prems(1) by simp
  show ?case
  proof (cases "sint (filesLimit a) < sint (filesCount st) + 1")
    case True
    then show ?thesis using assms(1) s by (simp add: count_check_def Let_def)
  next
    case False
    let ?st1 = "st\<lparr>filesCount := filesCount st + 1\<rparr>"
    have c: "count_check a st = (None, ?st1)"
      using assms(1) s False by (simp add: count_check_def Let_def)
    obtain r2 st2 where u: "untar_entry a os ?st1 e = (r2, st2)"
      by (cases "untar_entry a os ?st1 e")
    show ?thesis
    proof (cases r2)
      case (Some err)
      with c u show ?thesis by simp
    next
      case None
      have fc: "filesCount st2 = filesCount st + 1"
        using untar_entry_filesCount[OF u] by simp
      have "fst (untar_loop a os st2 es fin) \<noteq> None"
        using Cons.prems False s fc by (intro Cons.IH) simp_all
      with c u None show ?thesis by simp
    qed
  qed
qed



section \<open>The second loop and the whole of untar\<close>

lemma dir_fixups_log:
  "dir_fixups a os lg hs = (r, lg') \<Longrightarrow>
     \<exists>new. lg' = lg @ new \<and> set new \<subseteq> set (fixup_calls a hs) \<and> (r = None \<longrightarrow> new = fixup_calls a hs)"
proof (induction hs arbitrary: lg)
  case Nil
  then show ?case by (simp add: fixup_calls_def)
next
  case (Cons h hs)
  let ?p = "filepath_Join (dst a) (Name h)"
  let ?c1 = "Chmod ?p (FileInfo_Mode h)"
  let ?c2 = "Chtimes ?p (fst (header_times (now a) h)) (snd (header_times (now a) h))"
  have fc: "fixup_calls a (h # hs) = [?c1, ?c2] @ fixup_calls a hs"
    by (simp add: fixup_calls_def)
  show ?case
  proof (cases "call_fails os lg ?c1")
    case True
    with Cons.prems have "lg' = lg @ [?c1]" "r \<noteq> None" by (auto simp: Let_def)
    then show ?thesis using fc by auto
  next
    case f1: False
    show ?thesis
    proof (cases "call_fails os (lg @ [?c1]) ?c2")
      case True
      with f1 Cons.prems have "lg' = lg @ [?c1, ?c2]" "r \<noteq> None"
        by (auto simp: Let_def split: prod.splits)
      then show ?thesis using fc by auto
    next
      case False
      with f1 Cons.prems have "dir_fixups a os (lg @ [?c1, ?c2]) hs = (r, lg')"
        by (auto simp: Let_def split: prod.splits)
      from Cons.IH[OF this] obtain n where n: "lg' = (lg @ [?c1, ?c2]) @ n"
        "set n \<subseteq> set (fixup_calls a hs)" "r = None \<longrightarrow> n = fixup_calls a hs" by blast
      have "lg' = lg @ ([?c1, ?c2] @ n)" using n(1) by simp
      moreover have "set ([?c1, ?c2] @ n) \<subseteq> set (fixup_calls a (h # hs))" using n(2) fc by auto
      moreover have "r = None \<longrightarrow> [?c1, ?c2] @ n = fixup_calls a (h # hs)" using n(3) fc by simp
      ultimately show ?thesis by blast
    qed
  qed
qed

lemma dir_fixups_error:
  "dir_fixups a os lg hs = (Some err, lg') \<Longrightarrow> (\<exists>p. err = ErrDirChmod p \<or> err = ErrDirChtimes p)"
  by (induction hs arbitrary: lg) (auto simp: Let_def split: if_splits prod.splits)

lemma fixup_calls_no_copy: "c \<in> set (fixup_calls a hs) \<Longrightarrow> \<not> is_IoCopy c"
  by (auto simp: fixup_calls_def)

lemma untar_log_split:
  "untar a os input fin = (r, lg) \<Longrightarrow>
     \<exists>main fx. lg = main @ fx \<and> main = log (snd (untar_loop a os init_state input fin))
        \<and> set main \<subseteq> (\<Union>e\<in>set input. set (entry_calls a e))
        \<and> set fx \<subseteq> set (fixup_calls a (dirHeaders (snd (untar_loop a os init_state input fin))))
        \<and> (r = None \<longrightarrow> fx = fixup_calls a (dirHeaders (snd (untar_loop a os init_state input fin))))"
proof -
  assume u: "untar a os input fin = (r, lg)"
  obtain r1 st1 where l: "untar_loop a os init_state input fin = (r1, st1)"
    by (cases "untar_loop a os init_state input fin")
  from untar_loop_log[OF l] have m: "set (log st1) \<subseteq> (\<Union>e\<in>set input. set (entry_calls a e))"
    by (auto simp: init_state_def)
  show ?thesis
  proof (cases r1)
    case (Some err)
    with u l have "lg = log st1" "r \<noteq> None" by (auto simp: untar_def)
    with m l show ?thesis by auto
  next
    case None
    with u l have "dir_fixups a os (log st1) (dirHeaders st1) = (r, lg)" by (simp add: untar_def)
    from dir_fixups_log[OF this] m l show ?thesis by auto
  qed
qed

lemma untar_error_from_loop:
  assumes "fst (untar a os input fin) = Some err" "\<forall>p. err \<noteq> ErrDirChmod p \<and> err \<noteq> ErrDirChtimes p"
  shows "\<exists>st'. untar_loop a os init_state input fin = (Some err, st')
            \<and> snd (untar a os input fin) = log st'"
proof -
  obtain r1 st1 where l: "untar_loop a os init_state input fin = (r1, st1)"
    by (cases "untar_loop a os init_state input fin")
  show ?thesis
  proof (cases r1)
    case None
    with l assms(1) obtain lg where "dir_fixups a os (log st1) (dirHeaders st1) = (Some err, lg)"
      by (cases "dir_fixups a os (log st1) (dirHeaders st1)") (auto simp: untar_def)
    from dir_fixups_error[OF this] assms(2) show ?thesis by blast
  next
    case (Some e1)
    with l assms(1) show ?thesis by (auto simp: untar_def)
  qed
qed

lemma untar_loop_error_untar:
  "untar_loop a os init_state input fin = (Some err, st') \<Longrightarrow>
     untar a os input fin = (Some err, log st')"
  by (simp add: untar_def)

lemma entry_calls_copy:
  "IoCopy p r \<in> set (entry_calls a e) \<Longrightarrow> is_file e \<and> p = entry_path a e \<and> r = copy_source a e"
  by (auto simp: entry_calls_def is_file_def split: if_splits)

lemma untar_copy_calls:
  assumes "IoCopy p r \<in> set (snd (untar a os input fin))"
  shows "\<exists>e\<in>set input. is_file e \<and> p = entry_path a e \<and> r = copy_source a e"
proof -
  obtain res lg where u: "untar a os input fin = (res, lg)" by (cases "untar a os input fin")
  from untar_log_split[OF u] obtain main fx where s: "lg = main @ fx"
    "set main \<subseteq> (\<Union>e\<in>set input. set (entry_calls a e))"
    "set fx \<subseteq> set (fixup_calls a (dirHeaders (snd (untar_loop a os init_state input fin))))"
    by blast
  from assms u s(1) have "IoCopy p r \<in> set main \<or> IoCopy p r \<in> set fx" by auto
  moreover have "IoCopy p r \<notin> set fx"
    using s(3) fixup_calls_no_copy[of "IoCopy p r"] by auto
  ultimately have "IoCopy p r \<in> set main" by blast
  with s(2) obtain e where "e \<in> set input" "IoCopy p r \<in> set (entry_calls a e)" by blast
  then show ?thesis using entry_calls_copy by blast
qed


lemma untar_unlimited_no_size_error:
  assumes "\<not> 0 < sint (fileSizeLimit a)"
  shows "fst (untar a os input fin) \<noteq> Some (ErrSizeLimit l s)"
proof
  assume f: "fst (untar a os input fin) = Some (ErrSizeLimit l s)"
  from untar_error_from_loop[OF f] obtain st2 where
    "untar_loop a os init_state input fin = (Some (ErrSizeLimit l s), st2)" by auto
  from untar_loop_size_error[OF this] assms show False by blast
qed

lemma exact_count_never_succeeds:
  assumes "0 < sint (filesLimit a)" "sint (filesLimit a) < 2 ^ 63 - 1"
    "sint (filesLimit a) \<le> int (length input)"
  shows "fst (untar a os input fin) \<noteq> None"
proof -
  have "fst (untar_loop a os init_state input fin) \<noteq> None"
    using assms by (intro untar_loop_count_exhausted) (simp_all add: init_state_def)
  then show ?thesis by (auto simp: untar_def split: prod.splits option.splits)
qed

lemma dirs_only_loop:
  assumes "dir a" "\<forall>e\<in>set input. \<not> is_file e" "\<forall>lg p m. \<not> call_fails os lg (MkdirAll p m)"
    "\<not> finished st"
    "\<not> 0 < sint (filesLimit a) \<or> sint (filesCount st) + int (length input) < sint (filesLimit a)"
    "\<not> 0 < sint (fileSizeLimit a) \<or>
       (\<forall>n\<le>length input. \<not> sint (fileSizeLimit a) < sint (fileSize st + declared_sum (take n input)))"
  shows "\<exists>st'. untar_loop a os st input EOF = (Some (ErrEmpty (src a)), st')
      \<and> log st' = log st @ map (\<lambda>e. MkdirAll (entry_path a e) (umask a)) (filter is_dir input)"
  using assms(2,4,5,6)
proof (induction input arbitrary: st)
  case Nil
  from Nil.prems(3) have "\<not> 0 < sint (filesLimit a) \<or> sint (filesCount st) < sint (filesLimit a)"
    by simp
  from count_check_pass[OF this] obtain st1 where
    c: "count_check a st = (None, st1)" "log st1 = log st" "finished st1 = finished st" by blast
  with Nil.prems(2) show ?case by simp
next
  case (Cons e es)
  from Cons.prems(3) have "\<not> 0 < sint (filesLimit a) \<or> sint (filesCount st) < sint (filesLimit a)"
    by auto
  from count_check_pass[OF this] obtain st1 where
    c: "count_check a st = (None, st1)" "log st1 = log st" "finished st1 = finished st"
       "fileSize st1 = fileSize st"
       "sint (filesCount st1) = (if 0 < sint (filesLimit a) then sint (filesCount st) + 1
                                       else sint (filesCount st))"
    by blast
  have cnt: "\<not> 0 < sint (filesLimit a) \<or> sint (filesCount st1) + int (length es) < sint (filesLimit a)"
    using Cons.prems(3) c(5) by auto
  have nf: "\<forall>e\<in>set es. \<not> is_file e" using Cons.prems(1) by simp
  show ?case
  proof (cases "is_ext e")
    case True
    then have u: "untar_entry a os st1 e = (None, st1)" by (rule untar_entry_ext)
    have sz: "\<not> 0 < sint (fileSizeLimit a) \<or>
       (\<forall>n\<le>length es. \<not> sint (fileSizeLimit a) < sint (fileSize st1 + declared_sum (take n es)))"
    proof (cases "0 < sint (fileSizeLimit a)")
      case False then show ?thesis by simp
    next
      case lim: True
      have "\<forall>n\<le>length es. \<not> sint (fileSizeLimit a) < sint (fileSize st1 + declared_sum (take n es))"
      proof (intro allI impI)
        fix n assume "n \<le> length es"
        then have "Suc n \<le> length (e # es)" by simp
        with Cons.prems(4) lim
        have "\<not> sint (fileSizeLimit a) < sint (fileSize st + declared_sum (take (Suc n) (e # es)))"
          by blast
        then show "\<not> sint (fileSizeLimit a) < sint (fileSize st1 + declared_sum (take n es))"
          using True c(4) by (simp add: declared_sum_Cons)
      qed
      then show ?thesis by simp
    qed
    from Cons.IH[OF nf _ cnt sz] Cons.prems(2) c(3)
    obtain st' where "untar_loop a os st1 es EOF = (Some (ErrEmpty (src a)), st')"
      "log st' = log st1 @ map (\<lambda>e. MkdirAll (entry_path a e) (umask a)) (filter is_dir es)"
      by auto
    moreover have "\<not> is_dir e" using True by (simp add: is_dir_def)
    ultimately show ?thesis using c u by simp
  next
    case False
    with Cons.prems(1) have d: "is_dir e" by (simp add: is_dir_def is_file_def)
    have one: "\<not> (0 < sint (fileSizeLimit a) \<and> sint (fileSizeLimit a) < sint (fileSize st1 + Size (hdr e)))"
    proof
      assume h: "0 < sint (fileSizeLimit a) \<and> sint (fileSizeLimit a) < sint (fileSize st1 + Size (hdr e))"
      have "Suc 0 \<le> length (e # es)" by simp
      with Cons.prems(4) h
      have "\<not> sint (fileSizeLimit a) < sint (fileSize st + declared_sum (take (Suc 0) (e # es)))"
        by blast
      with h False c(4) show False by (simp add: declared_sum_Cons declared_sum_def)
    qed
    let ?st2 = "st1\<lparr>fileSize := fileSize st1 + Size (hdr e),
               log := log st1 @ [MkdirAll (entry_path a e) (umask a)],
               dirHeaders := dirHeaders st1 @ [hdr e]\<rparr>"
    have u: "untar_entry a os st1 e = (None, ?st2)"
      using untar_entry_dir_ok[OF d assms(1) one] assms(3) by simp
    have sz: "\<not> 0 < sint (fileSizeLimit a) \<or>
       (\<forall>n\<le>length es. \<not> sint (fileSizeLimit a) < sint (fileSize ?st2 + declared_sum (take n es)))"
    proof (cases "0 < sint (fileSizeLimit a)")
      case False then show ?thesis by simp
    next
      case lim: True
      have "\<forall>n\<le>length es. \<not> sint (fileSizeLimit a) < sint (fileSize ?st2 + declared_sum (take n es))"
      proof (intro allI impI)
        fix n assume "n \<le> length es"
        then have "Suc n \<le> length (e # es)" by simp
        with Cons.prems(4) lim
        have "\<not> sint (fileSizeLimit a) < sint (fileSize st + declared_sum (take (Suc n) (e # es)))"
          by blast
        then show "\<not> sint (fileSizeLimit a) < sint (fileSize ?st2 + declared_sum (take n es))"
          using False c(4) by (simp add: declared_sum_Cons add.assoc)
      qed
      then show ?thesis by simp
    qed
    have cnt2: "\<not> 0 < sint (filesLimit a) \<or> sint (filesCount ?st2) + int (length es) < sint (filesLimit a)"
      using cnt by simp
    have fin2: "\<not> finished ?st2" using Cons.prems(2) c(3) by simp
    from Cons.IH[OF nf fin2 cnt2 sz]
    obtain st' where "untar_loop a os ?st2 es EOF = (Some (ErrEmpty (src a)), st')"
      "log st' = log ?st2 @ map (\<lambda>e. MkdirAll (entry_path a e) (umask a)) (filter is_dir es)"
      by blast
    with c u d show ?thesis by simp
  qed
qed

section \<open>Paths\<close>









section \<open>Entry names and the destination root\<close>




section \<open>The size limit of the bzip2 expander\<close>

text \<open>
  The tar engine asks whether a limit is set before it compares: without a limit it
  never returns the size error.
\<close>

lemma untar_zero_limit_no_size_error:
  "fileSizeLimit a = 0 \<Longrightarrow> fst (untar a os input fin) \<noteq> Some (ErrSizeLimit l s)"
  by (rule untar_unlimited_no_size_error) simp

text \<open>
  The bzip2 expander does not ask: with \<open>FileSizeLimit = 0\<close> the first read that returns
  a byte is refused (a read returns at most the 32768 bytes of the buffer).
\<close>

lemma write_chunk_zero_limit:
  assumes "FileSizeLimit b = 0" "buf \<noteq> []" "length buf \<le> 32768"
  shows "write_chunk os b outputFile lg 0 buf = (Some (ErrDecompressedSize 0), lg, 0)"
proof -
  have "length buf < 2 ^ 63" using assms(3) by simp
  then have "sint (word_of_nat (length buf) :: int64) = int (length buf)" by (rule sint_of_small_nat)
  moreover have "0 < length buf" using assms(2) by simp
  ultimately show ?thesis using assms(1) by (simp add: write_chunk_def Let_def)
qed

text \<open>
  Claim C2. With \<open>FileSizeLimit = 0\<close> the bzip2 expander compares the running total with
  the limit without asking whether a limit is set: a stream that decompresses to one byte
  is refused with the size error, and nothing is written to the output file.
\<close>

theorem bzip2_zero_limit_fails:
  "Bzip2Expander_Expand ok_os (Some ''/home/u'') [[7]] ([], EOF) (Bzip2Expander 0)
      ''/in/a.bz2'' ''/out/a'' False 493 =
     (Some (ErrDecompressedSize 0),
      [Open ''/in/a.bz2'', MkdirAll ''/out'' 493, OpenFile ''/out/a'' O_WRONLY_CREATE_TRUNC 420])"
  by (simp add: bzip2_eval)

section \<open>The entry count\<close>

text \<open>
  Claim C3. The count is raised at the head of every iteration, before \<open>Next()\<close> is
  called: it counts the extended headers and the iteration that would read the end of the
  stream. With \<open>filesLimit = 1\<close> an archive of exactly one file is written and then
  refused with the count error; with \<open>filesLimit = 3\<close> an archive of two extended headers
  and one file is refused, while an archive of two files is accepted. In general no archive
  for which the reader returns \<open>filesLimit\<close> headers or more is ever extracted with
  success (\<open>exact_count_never_succeeds\<close>).
\<close>

theorem files_limit_exact_count_fails:
  "untar (args0\<lparr>filesLimit := 1\<rparr>) ok_os [file_entry ''a'' [1, 2, 3]] EOF =
     (Some (ErrTooManyFiles 2 1),
      [MkdirAll ''/dst'' 493, OpenFile ''/dst/a'' O_RDWR_CREATE_TRUNC 493,
       IoCopy ''/dst/a'' (EntryData [1, 2, 3]), Chmod ''/dst/a'' 493,
       Chtimes ''/dst/a'' 1800000000 1700000000])
   \<and> fst (untar (args0\<lparr>filesLimit := 3\<rparr>) ok_os
            [pax_entry, pax_entry, file_entry ''a'' [1]] EOF) = Some (ErrTooManyFiles 4 3)
   \<and> fst (untar (args0\<lparr>filesLimit := 3\<rparr>) ok_os
            [file_entry ''a'' [1], file_entry ''b'' [2]] EOF) = None"
  by (simp add: untar_eval)

section \<open>The cumulative size limit\<close>

text \<open>
  Claim C4. The running total is the \<open>int64\<close> variable \<open>fileSize\<close>, and the addition
  is not checked for overflow. With a limit of 4 bytes, after a file of 3 bytes a header
  that declares \<open>2^63 - 1\<close> bytes takes the cumulative declared size far above the limit,
  but the \<open>int64\<close> total wraps around to a negative number: the size check passes, the
  entry is copied through a reader limited to 4 bytes (7 bytes are on disk in all), and
  \<open>untar\<close> returns the error of the reader, which finds the stream too short, not the
  size error.
\<close>

theorem size_limit_overflow_bypass:
  "declared_sum [file_entry ''a'' [1, 2, 3], sized_entry ''b'' 0x7FFFFFFFFFFFFFFF [4, 5, 6, 7, 8, 9]]
     = 0x8000000000000002
   \<and> sint (0x8000000000000002 :: int64) = - 9223372036854775806
   \<and> untar (args0\<lparr>fileSizeLimit := 4\<rparr>) ok_os
       [file_entry ''a'' [1, 2, 3], sized_entry ''b'' 0x7FFFFFFFFFFFFFFF [4, 5, 6, 7, 8, 9]]
       (ReadError ''unexpected EOF'') =
     (Some (ErrReader ''unexpected EOF''),
      [MkdirAll ''/dst'' 493, OpenFile ''/dst/a'' O_RDWR_CREATE_TRUNC 493,
       IoCopy ''/dst/a'' (LimitReader (EntryData [1, 2, 3]) 4), Chmod ''/dst/a'' 493,
       Chtimes ''/dst/a'' 1800000000 1700000000,
       MkdirAll ''/dst'' 493, OpenFile ''/dst/b'' O_RDWR_CREATE_TRUNC 493,
       IoCopy ''/dst/b'' (LimitReader (EntryData [4, 5, 6, 7, 8, 9]) 4), Chmod ''/dst/b'' 493,
       Chtimes ''/dst/b'' 1800000000 1700000000])
   \<and> read_all (LimitReader (EntryData [1, 2, 3]) 4) = [1, 2, 3]
   \<and> read_all (LimitReader (EntryData [4, 5, 6, 7, 8, 9]) 4) = [4, 5, 6, 7]"
  by (simp add: untar_eval declared_sum_def is_ext_def)

text \<open>
  Short of that overflow the check does what is said of it. The \<open>int64\<close> total is the
  exact sum of the declared sizes as long as they are not negative and their sum stays below
  \<open>2^63\<close> (\<open>declared_sum_exact\<close>). Let a limit be set. Once the loop has processed the
  entries \<open>pre\<close>, the running total is the sum of their declared sizes (extended headers
  aside), and at none of them did the total exceed the limit. If the next entry, reached by
  the loop, is not an extended header and its declared size takes the total above the
  limit, \<open>untar\<close> returns the size error and has made no call on the file system for that
  entry: the log is the one left by \<open>pre\<close>. The size error is returned in this situation
  only; so if the total never exceeds the limit, it is never returned.
\<close>

theorem size_limit_first_crossing:
  assumes "0 < sint (fileSizeLimit a)"
  shows "(loop_prefix a os init_state pre = Some st \<longrightarrow>
           fileSize st = declared_sum pre
           \<and> (\<forall>n\<le>length pre. \<not> sint (fileSizeLimit a) < sint (declared_sum (take n pre))))
       \<and> (loop_prefix a os init_state pre = Some st \<and> fst (count_check a st) = None \<and> \<not> is_ext e
           \<and> sint (fileSizeLimit a) < sint (declared_sum (pre @ [e])) \<longrightarrow>
           untar a os (pre @ e # rest) fin =
             (Some (ErrSizeLimit (fileSizeLimit a) (declared_sum (pre @ [e]))), log st))
       \<and> (fst (untar a os input fin) = Some (ErrSizeLimit l s) \<longrightarrow>
           (\<exists>pre' e' rest' st'. input = pre' @ e' # rest' \<and> \<not> is_ext e'
              \<and> loop_prefix a os init_state pre' = Some st'
              \<and> snd (untar a os input fin) = log st'
              \<and> l = fileSizeLimit a \<and> s = declared_sum (pre' @ [e']) \<and> sint l < sint s))
       \<and> ((\<forall>n\<le>length input. \<not> sint (fileSizeLimit a) < sint (declared_sum (take n input))) \<longrightarrow>
           fst (untar a os input fin) \<noteq> Some (ErrSizeLimit l s))"
proof -
  have A: "fileSize st = declared_sum pre
           \<and> (\<forall>n\<le>length pre. \<not> sint (fileSizeLimit a) < sint (declared_sum (take n pre)))"
    if lp: "loop_prefix a os init_state pre = Some st"
  proof -
    have "fileSize st = declared_sum pre"
      using loop_prefix_fileSize[OF lp] by (simp add: init_state_def)
    moreover have z: "\<not> sint (fileSizeLimit a) < sint (fileSize init_state)"
      using assms by (simp add: init_state_def)
    have "\<not> sint (fileSizeLimit a) < sint (declared_sum (take n pre))"
      if "n \<le> length pre" for n
      using loop_prefix_totals_ok[OF lp assms z that] by (simp add: init_state_def)
    ultimately show ?thesis by blast
  qed
  have B: "untar a os (pre @ e # rest) fin =
             (Some (ErrSizeLimit (fileSizeLimit a) (declared_sum (pre @ [e]))), log st)"
    if lp: "loop_prefix a os init_state pre = Some st" and cc: "fst (count_check a st) = None"
      and ne: "\<not> is_ext e" and ex: "sint (fileSizeLimit a) < sint (declared_sum (pre @ [e]))"
  proof -
    obtain st1 where c: "count_check a st = (None, st1)"
      using cc by (cases "count_check a st") auto
    have fs: "fileSize st1 = declared_sum pre"
      using loop_prefix_fileSize[OF lp] count_check_fields[OF c] by (simp add: init_state_def)
    have ex1: "sint (fileSizeLimit a) < sint (fileSize st1 + Size (hdr e))"
      using ex ne fs by (simp add: declared_sum_snoc)
    from untar_entry_size_error[OF ne assms ex1]
    have "untar_loop a os st (e # rest) fin =
       (Some (ErrSizeLimit (fileSizeLimit a) (fileSize st1 + Size (hdr e))),
        st1\<lparr>fileSize := fileSize st1 + Size (hdr e)\<rparr>)"
      using c by simp
    then have "untar_loop a os init_state (pre @ e # rest) fin =
       (Some (ErrSizeLimit (fileSizeLimit a) (fileSize st1 + Size (hdr e))),
        st1\<lparr>fileSize := fileSize st1 + Size (hdr e)\<rparr>)"
      using loop_prefix_append[OF lp] by simp
    from untar_loop_error_untar[OF this] count_check_fields[OF c] fs ne
    show ?thesis by (simp add: declared_sum_snoc)
  qed
  have C: "\<exists>pre' e' rest' st'. input = pre' @ e' # rest' \<and> \<not> is_ext e'
              \<and> loop_prefix a os init_state pre' = Some st'
              \<and> snd (untar a os input fin) = log st'
              \<and> l = fileSizeLimit a \<and> s = declared_sum (pre' @ [e']) \<and> sint l < sint s"
    if f: "fst (untar a os input fin) = Some (ErrSizeLimit l s)" for l s
  proof -
    from untar_error_from_loop[OF f] obtain st2 where
      l2: "untar_loop a os init_state input fin = (Some (ErrSizeLimit l s), st2)"
      "snd (untar a os input fin) = log st2" by auto
    from untar_loop_size_error[OF l2(1)] obtain pre' e' rest' st1 where
      p: "input = pre' @ e' # rest'" "loop_prefix a os init_state pre' = Some st1"
        "\<not> is_ext e'" "l = fileSizeLimit a" "s = fileSize st1 + Size (hdr e')" "sint l < sint s"
        "log st2 = log st1" by blast
    have "s = declared_sum (pre' @ [e'])"
      using loop_prefix_fileSize[OF p(2)] p(3,5) by (simp add: init_state_def declared_sum_snoc)
    with p l2(2) show ?thesis
      by (intro exI[of _ pre'] exI[of _ e'] exI[of _ rest'] exI[of _ st1]) simp
  qed
  have D: "fst (untar a os input fin) \<noteq> Some (ErrSizeLimit l s)"
    if h: "\<forall>n\<le>length input. \<not> sint (fileSizeLimit a) < sint (declared_sum (take n input))"
  proof
    assume "fst (untar a os input fin) = Some (ErrSizeLimit l s)"
    from C[OF this] obtain pre' e' rest' where
      p: "input = pre' @ e' # rest'" "l = fileSizeLimit a" "s = declared_sum (pre' @ [e'])"
        "sint l < sint s" by blast
    have "Suc (length pre') \<le> length input" using p(1) by simp
    moreover have "take (Suc (length pre')) input = pre' @ [e']" using p(1) by simp
    ultimately have "\<not> sint (fileSizeLimit a) < sint (declared_sum (pre' @ [e']))"
      using h by metis
    with p show False by simp
  qed
  from A B C D show ?thesis by blast
qed

theorem size_limit_first_crossing_example:
  "untar (args0\<lparr>fileSizeLimit := 5\<rparr>) ok_os
      [file_entry ''a'' [1, 2, 3], file_entry ''b'' [4, 5, 6]] EOF =
     (Some (ErrSizeLimit 5 6),
      [MkdirAll ''/dst'' 493, OpenFile ''/dst/a'' O_RDWR_CREATE_TRUNC 493,
       IoCopy ''/dst/a'' (LimitReader (EntryData [1, 2, 3]) 5), Chmod ''/dst/a'' 493,
       Chtimes ''/dst/a'' 1800000000 1700000000])"
proof -
  let ?a = "args0\<lparr>fileSizeLimit := 5\<rparr>"
  let ?lg = "[MkdirAll ''/dst'' 493, OpenFile ''/dst/a'' O_RDWR_CREATE_TRUNC 493,
       IoCopy ''/dst/a'' (LimitReader (EntryData [1, 2, 3]) 5), Chmod ''/dst/a'' 493,
       Chtimes ''/dst/a'' 1800000000 1700000000]"
  let ?st = "\<lparr>finished = True, dirHeaders = [], fileSize = 3, filesCount = 0, log = ?lg\<rparr>"
  have h: "0 < sint (fileSizeLimit ?a)" by (simp add: args0_def)
  have lp: "loop_prefix ?a ok_os init_state [file_entry ''a'' [1, 2, 3]] = Some ?st"
    by (simp add: untar_eval)
  have cc: "fst (count_check ?a ?st) = None" by (simp add: count_check_def args0_def)
  have ne: "\<not> is_ext (file_entry ''b'' [4, 5, 6])" by (simp add: class_eval)
  have ds: "declared_sum ([file_entry ''a'' [1, 2, 3]] @ [file_entry ''b'' [4, 5, 6]]) = 6"
    by (simp add: declared_sum_def class_eval)
  have ex: "sint (fileSizeLimit ?a)
      < sint (declared_sum ([file_entry ''a'' [1, 2, 3]] @ [file_entry ''b'' [4, 5, 6]]))"
    unfolding ds by (simp add: args0_def)
  note t = size_limit_first_crossing[OF h, where pre = "[file_entry ''a'' [1, 2, 3]]"
      and st = ?st and os = ok_os and e = "file_entry ''b'' [4, 5, 6]" and rest = "[]" and fin = EOF]
  from t lp cc ne ex
  have "untar ?a ok_os ([file_entry ''a'' [1, 2, 3]] @ file_entry ''b'' [4, 5, 6] # []) EOF =
      (Some (ErrSizeLimit (fileSizeLimit ?a)
         (declared_sum ([file_entry ''a'' [1, 2, 3]] @ [file_entry ''b'' [4, 5, 6]]))), log ?st)"
    by blast
  then show ?thesis unfolding ds by (simp add: args0_def)
qed

section \<open>Single-file mode\<close>



section \<open>IsSafePath\<close>




section \<open>The cap of the bounded copy\<close>

text \<open>
  With a limit of 10 bytes and two files of 3 and 4 bytes, the second copy is capped at
  10 bytes, not at the 7 bytes that remain.
\<close>

theorem copy_cap_counterexample:
  "untar (args0\<lparr>fileSizeLimit := 10\<rparr>) ok_os
      [file_entry ''a'' [1, 2, 3], file_entry ''b'' [4, 5, 6, 7]] EOF =
     (None,
      [MkdirAll ''/dst'' 493, OpenFile ''/dst/a'' O_RDWR_CREATE_TRUNC 493,
       IoCopy ''/dst/a'' (LimitReader (EntryData [1, 2, 3]) 10), Chmod ''/dst/a'' 493,
       Chtimes ''/dst/a'' 1800000000 1700000000,
       MkdirAll ''/dst'' 493, OpenFile ''/dst/b'' O_RDWR_CREATE_TRUNC 493,
       IoCopy ''/dst/b'' (LimitReader (EntryData [4, 5, 6, 7]) 10), Chmod ''/dst/b'' 493,
       Chtimes ''/dst/b'' 1800000000 1700000000])
   \<and> Size (hdr (file_entry ''a'' [1, 2, 3])) = 3 \<and> (10 :: int64) - 3 \<noteq> 10"
  by (simp add: untar_eval)

text \<open>
  Claim C8, as the code has it. When a limit is set, every copy \<open>untar\<close> makes reads a
  file entry of the archive through a reader limited to the full \<open>fileSizeLimit\<close>,
  whatever the sizes accumulated before.
\<close>

theorem copy_cap_is_full_limit:
  "0 < sint (fileSizeLimit a) \<Longrightarrow> IoCopy p r \<in> set (snd (untar a os input fin)) \<Longrightarrow>
     \<exists>e\<in>set input. is_file e \<and> p = entry_path a e
        \<and> r = LimitReader (EntryData (body e)) (fileSizeLimit a)"
  using untar_copy_calls[of p r a os input fin] by (auto simp: copy_source_def)

theorem copy_cap_is_full_limit_witness:
  "0 < sint (fileSizeLimit (args0\<lparr>fileSizeLimit := 10\<rparr>))
   \<and> IoCopy ''/dst/b'' (LimitReader (EntryData [4, 5, 6, 7]) 10)
       \<in> set (snd (untar (args0\<lparr>fileSizeLimit := 10\<rparr>) ok_os
                  [file_entry ''a'' [1, 2, 3], file_entry ''b'' [4, 5, 6, 7]] EOF))
   \<and> (\<exists>e\<in>set [file_entry ''a'' [1, 2, 3], file_entry ''b'' [4, 5, 6, 7]].
         is_file e \<and> ''/dst/b'' = entry_path (args0\<lparr>fileSizeLimit := 10\<rparr>) e
         \<and> LimitReader (EntryData [4, 5, 6, 7]) 10
             = LimitReader (EntryData (body e)) (fileSizeLimit (args0\<lparr>fileSizeLimit := 10\<rparr>)))"
proof -
  have h1: "0 < sint (fileSizeLimit (args0\<lparr>fileSizeLimit := 10\<rparr>))"
    by (simp add: args0_def)
  have h2: "IoCopy ''/dst/b'' (LimitReader (EntryData [4, 5, 6, 7]) 10)
       \<in> set (snd (untar (args0\<lparr>fileSizeLimit := 10\<rparr>) ok_os
                  [file_entry ''a'' [1, 2, 3], file_entry ''b'' [4, 5, 6, 7]] EOF))"
    by (simp add: untar_eval)
  from copy_cap_is_full_limit[OF h1 h2] h1 h2 show ?thesis by blast
qed

section \<open>Directory fix-ups\<close>

text \<open>
  Claim C9. In a run of \<open>untar\<close> that succeeds, the calls on the file system are the
  calls of the loop followed by the fix-ups of the directory entries, one \<open>Chmod\<close> and one
  \<open>Chtimes\<close> each, in the order of the directory entries in the archive. The content of
  every file entry is copied in the first part, in the order of the archive; no call of the
  first part is a fix-up of a directory (for a directory entry the loop only calls
  \<open>MkdirAll\<close>), and no copy happens among the fix-ups.
\<close>

theorem dir_fixups_after_loop:
  assumes "fst (untar a os input fin) = None"
  shows "\<exists>main. snd (untar a os input fin) = main @ fixup_calls a (map hdr (filter is_dir input))
          \<and> filter is_IoCopy main
              = map (\<lambda>e. IoCopy (entry_path a e) (copy_source a e)) (filter is_file input)
          \<and> (\<forall>c\<in>set main. \<exists>e\<in>set input. c \<in> set (entry_calls a e))
          \<and> (\<forall>c\<in>set (fixup_calls a (map hdr (filter is_dir input))). \<not> is_IoCopy c)"
proof -
  obtain lg where u: "untar a os input fin = (None, lg)"
    using assms by (cases "untar a os input fin") auto
  obtain r1 st1 where l: "untar_loop a os init_state input fin = (r1, st1)"
    by (cases "untar_loop a os init_state input fin")
  have r1: "r1 = None"
    using u l by (auto simp: untar_def split: option.splits)
  from untar_log_split[OF u] l
  have s: "lg = log st1 @ fixup_calls a (dirHeaders st1)"
    "set (log st1) \<subseteq> (\<Union>e\<in>set input. set (entry_calls a e))"
    by auto
  from untar_loop_dirHeaders[OF l[unfolded r1]]
  have d: "dirHeaders st1 = map hdr (filter is_dir input)" by (simp add: init_state_def)
  from untar_loop_copies[OF l[unfolded r1]]
  have c: "filter is_IoCopy (log st1)
      = map (\<lambda>e. IoCopy (entry_path a e) (copy_source a e)) (filter is_file input)"
    by (simp add: init_state_def)
  have "snd (untar a os input fin) = log st1 @ fixup_calls a (map hdr (filter is_dir input))"
    using u s(1) d by simp
  moreover have "\<forall>c\<in>set (log st1). \<exists>e\<in>set input. c \<in> set (entry_calls a e)"
    using s(2) by auto
  moreover have "\<forall>c\<in>set (fixup_calls a (map hdr (filter is_dir input))). \<not> is_IoCopy c"
    using fixup_calls_no_copy by blast
  ultimately show ?thesis using c by blast
qed

theorem dir_fixups_after_loop_witness:
  "fst (untar args0 ok_os [dir_entry ''d'', file_entry ''d/a'' [1, 2, 3]] EOF) = None
   \<and> (\<exists>main. snd (untar args0 ok_os [dir_entry ''d'', file_entry ''d/a'' [1, 2, 3]] EOF)
          = main @ [Chmod ''/dst/d'' 493, Chtimes ''/dst/d'' 1800000000 1700000000]
        \<and> filter is_IoCopy main = [IoCopy ''/dst/d/a'' (EntryData [1, 2, 3])])"
proof -
  let ?in = "[dir_entry ''d'', file_entry ''d/a'' [1, 2, 3]]"
  have h: "fst (untar args0 ok_os ?in EOF) = None" by (simp add: untar_eval)
  have f: "fixup_calls args0 (map hdr (filter is_dir ?in))
      = [Chmod ''/dst/d'' 493, Chtimes ''/dst/d'' 1800000000 1700000000]"
    by (simp add: fixup_calls_def class_eval args0_def header_times_def filepath_Join_def
        filepath_Clean_def render_path_def rooted_def path_comps_def split_slash_def)
  have c: "map (\<lambda>e. IoCopy (entry_path args0 e) (copy_source args0 e)) (filter is_file ?in)
      = [IoCopy ''/dst/d/a'' (EntryData [1, 2, 3])]"
    by (simp add: class_eval entry_path_def copy_source_def args0_def filepath_Join_def
        filepath_Clean_def render_path_def rooted_def path_comps_def split_slash_def)
  from dir_fixups_after_loop[OF h] obtain main where
    "snd (untar args0 ok_os ?in EOF) = main @ fixup_calls args0 (map hdr (filter is_dir ?in))"
    "filter is_IoCopy main
       = map (\<lambda>e. IoCopy (entry_path args0 e) (copy_source args0 e)) (filter is_file ?in)"
    by blast
  then have "snd (untar args0 ok_os ?in EOF)
          = main @ [Chmod ''/dst/d'' 493, Chtimes ''/dst/d'' 1800000000 1700000000]
        \<and> filter is_IoCopy main = [IoCopy ''/dst/d/a'' (EntryData [1, 2, 3])]"
    unfolding f c by simp
  with h show ?thesis by blast
qed

section \<open>Archives of directories only\<close>

text \<open>
  Claim C10. Let \<open>dir\<close> be true and let the archive hold no file entry: only
  directory entries and extended headers, ended by \<open>io.EOF\<close>. If no \<open>MkdirAll\<close> fails
  and no limit is hit (the entry count stays below \<open>filesLimit\<close> and the running total of
  declared sizes never exceeds \<open>fileSizeLimit\<close>, where they are set), \<open>untar\<close> creates
  every directory of the archive, in order, and returns the empty-archive error.
\<close>

theorem dirs_only_archive_is_empty:
  assumes "dir a" "\<forall>e\<in>set input. \<not> is_file e" "\<forall>lg p m. \<not> call_fails os lg (MkdirAll p m)"
    "\<not> 0 < sint (filesLimit a) \<or> int (length input) < sint (filesLimit a)"
    "\<not> 0 < sint (fileSizeLimit a) \<or>
       (\<forall>n\<le>length input. \<not> sint (fileSizeLimit a) < sint (declared_sum (take n input)))"
  shows "untar a os input EOF =
     (Some (ErrEmpty (src a)),
      map (\<lambda>e. MkdirAll (filepath_Join (dst a) (Name (hdr e))) (umask a)) (filter is_dir input))"
proof -
  have "\<exists>st'. untar_loop a os init_state input EOF = (Some (ErrEmpty (src a)), st')
      \<and> log st' = log init_state @ map (\<lambda>e. MkdirAll (entry_path a e) (umask a)) (filter is_dir input)"
    using assms by (intro dirs_only_loop) (simp_all add: init_state_def)
  then show ?thesis using assms(1) by (auto simp: untar_def init_state_def entry_path_def)
qed

theorem dirs_only_archive_is_empty_witness:
  "untar (args0\<lparr>fileSizeLimit := 10, filesLimit := 5\<rparr>) ok_os
      [dir_entry ''d'', pax_entry, dir_entry ''d/e''] EOF =
     (Some (ErrEmpty ''a.tar''), [MkdirAll ''/dst/d'' 493, MkdirAll ''/dst/d/e'' 493])"
proof -
  let ?a = "args0\<lparr>fileSizeLimit := 10, filesLimit := 5\<rparr>"
  let ?in = "[dir_entry ''d'', pax_entry, dir_entry ''d/e'']"
  have h1: "dir ?a" by (simp add: args0_def)
  have h2: "\<forall>e\<in>set ?in. \<not> is_file e" by (simp add: class_eval)
  have h3: "\<forall>lg p m. \<not> call_fails ok_os lg (MkdirAll p m)" by (simp add: ok_os_def)
  have h4: "\<not> 0 < sint (filesLimit ?a) \<or> int (length ?in) < sint (filesLimit ?a)" by simp
  have z: "declared_sum (take n ?in) = 0" for n
    by (rule declared_sum_zero) (auto dest!: in_set_takeD simp: class_eval)
  have h5: "\<not> 0 < sint (fileSizeLimit ?a) \<or>
       (\<forall>n\<le>length ?in. \<not> sint (fileSizeLimit ?a) < sint (declared_sum (take n ?in)))"
    unfolding z by simp
  have "untar ?a ok_os ?in EOF =
     (Some (ErrEmpty (src ?a)),
      map (\<lambda>e. MkdirAll (filepath_Join (dst ?a) (Name (hdr e))) (umask ?a)) (filter is_dir ?in))"
    using h1 h2 h3 h4 h5 by (rule dirs_only_archive_is_empty)
  then show ?thesis
    by (simp add: class_eval args0_def filepath_Join_def
        filepath_Clean_def render_path_def rooted_def path_comps_def split_slash_def)
qed

end
